(* ===== verification/Prelude.thy ===== *)
theory Prelude
  imports Main "HOL-Library.Sublist"
begin

text \<open>
  Shared vocabulary of the development. A Go \<open>byte\<close> is an Isabelle \<^typ>\<open>char\<close> (both have exactly
  256 values) and a Go \<open>string\<close> or \<open>[]byte\<close> is a list of them, so a source literal reads as an Isabelle
  literal. \<open>bval\<close> is the numeric value of a byte. A fallible Go function returns a sum: the error on
  the left, the value on the right. The collections named here gather the rewrite rules that the
  component theories declare for later ones.
\<close>

type_synonym bytes = "char list"

abbreviation bval :: "char \<Rightarrow> nat" where
  "bval c \<equiv> of_char c"

named_theorems codec \<open>encode/decode cancellation rules\<close>
named_theorems go_eval \<open>unfolding rules for closed evaluation\<close>

section \<open>Bytes\<close>

lemma bval_less_256 [simp]: "bval c < 256"
  by simp

lemma bval_le_255 [simp]: "bval c \<le> 255"
  using bval_less_256 [of c] by linarith

lemma bval_char_of [simp]: "n < 256 \<Longrightarrow> bval (char_of n) = n"
  by simp

lemma char_of_bval_eq: "bval c = n \<Longrightarrow> c = char_of n"
  by (metis char_of_char)

lemma bval_eq_iff: "bval c = bval d \<longleftrightarrow> c = d"
  by simp

definition is_digit :: "char \<Rightarrow> bool" where
  "is_digit c \<longleftrightarrow> 48 \<le> bval c \<and> bval c \<le> 57"

text \<open>The value of a hexadecimal digit of either case, as \<open>strconv.ParseUint\<close> reads it in base 16.\<close>

definition hex_val :: "char \<Rightarrow> nat option" where
  "hex_val c =
     (let n = bval c in
      if 48 \<le> n \<and> n \<le> 57 then Some (n - 48)
      else if 97 \<le> n \<and> n \<le> 102 then Some (n - 87)
      else if 65 \<le> n \<and> n \<le> 70 then Some (n - 55)
      else None)"

definition hex_digits :: bytes where
  "hex_digits = ''0123456789abcdef''"

definition hex_digit :: "nat \<Rightarrow> char" where
  "hex_digit n = hex_digits ! (n mod 16)"

lemma hex_digit_cases:
  assumes "n < 16"
  shows "hex_digit n \<in> set hex_digits \<and> hex_val (hex_digit n) = Some n"
proof -
  have "list_all (\<lambda>i. hex_digit i \<in> set hex_digits \<and> hex_val (hex_digit i) = Some i) [0..<16]"
    by code_simp
  then show ?thesis
    using assms by (simp add: list_all_iff)
qed

lemma hex_val_hex_digit [simp, codec]: "hex_val (hex_digit n) = Some (n mod 16)"
  using hex_digit_cases [of "n mod 16"] by (simp add: hex_digit_def)

lemma hex_digit_in: "hex_digit n \<in> set hex_digits"
  using hex_digit_cases [of "n mod 16"] by (simp add: hex_digit_def)

lemma hex_digit_plain: "bval (hex_digit n) < 128 \<and> 48 \<le> bval (hex_digit n) \<and> hex_digit n \<noteq> CHR 0x5C"
  using hex_digit_in [of n] by (auto simp: hex_digits_def)

section \<open>Lists\<close>

lemma drop_Suc_conv_tl_length: "length (drop n xs) \<le> length xs"
  by simp

lemma take_drop_cancel_left: "length xs = n \<Longrightarrow> drop n (xs @ ys) = ys"
  by simp

lemma prefix_drop_append: "prefix p s \<Longrightarrow> p @ drop (length p) s = s"
  by (auto simp: prefix_def)

lemma map_of_Some_mem: "map_of ms k = Some v \<Longrightarrow> (k, v) \<in> set ms"
  by (rule map_of_SomeD)

lemma size_list_map_of: "map_of ms k = Some v \<Longrightarrow> f v < size_list (\<lambda>p. f (snd p)) ms"
  by (induction ms) (auto split: if_splits)

text \<open>\<open>bytes.Split\<close> at a single byte.\<close>

fun split_bytes :: "char \<Rightarrow> bytes \<Rightarrow> bytes list" where
  "split_bytes sep [] = [[]]"
| "split_bytes sep (c # t) =
    (if c = sep then [] # split_bytes sep t
     else (case split_bytes sep t of [] \<Rightarrow> [[c]] | w # ws \<Rightarrow> (c # w) # ws))"

lemma split_bytes_line: "sep \<notin> set w \<Longrightarrow> split_bytes sep (w @ sep # t) = w # split_bytes sep t"
  by (induction w) auto

fun join_bytes :: "bytes \<Rightarrow> bytes list \<Rightarrow> bytes" where
  "join_bytes sep [] = []"
| "join_bytes sep [w] = w"
| "join_bytes sep (w # v # ws) = w @ sep @ join_bytes sep (v # ws)"

section \<open>Three-way comparison\<close>

text \<open>
  \<open>cmp.Compare\<close> on integers and \<open>slices.Compare\<close> on slices of them: the first differing element
  decides, then the shorter slice is the smaller one.
\<close>

definition cmp_compare :: "nat \<Rightarrow> nat \<Rightarrow> int" where
  "cmp_compare a b = (if a < b then - 1 else if b < a then 1 else 0)"

fun slices_compare :: "nat list \<Rightarrow> nat list \<Rightarrow> int" where
  "slices_compare [] [] = 0"
| "slices_compare [] (y # ys) = - 1"
| "slices_compare (x # xs) [] = 1"
| "slices_compare (x # xs) (y # ys) = (if x = y then slices_compare xs ys else cmp_compare x y)"

lemma slices_compare_refl [simp]: "slices_compare xs xs = 0"
  by (induction xs) simp_all

lemma slices_compare_eq_0: "slices_compare xs ys = 0 \<longleftrightarrow> xs = ys"
  by (induction xs ys rule: slices_compare.induct) (auto simp: cmp_compare_def)

lemma slices_compare_swap: "slices_compare ys xs = - slices_compare xs ys"
  by (induction xs ys rule: slices_compare.induct) (auto simp: cmp_compare_def)

lemma slices_compare_trans:
  "slices_compare xs ys < 0 \<Longrightarrow> slices_compare ys zs < 0 \<Longrightarrow> slices_compare xs zs < 0"
proof (induction xs ys arbitrary: zs rule: slices_compare.induct)
  case (2 y ys)
  then show ?case by (cases zs) auto
next
  case (4 x xs y ys)
  then show ?case
    by (cases zs) (auto simp: cmp_compare_def split: if_splits)
qed auto

lemma slices_compare_append: "slices_compare (ps @ xs) (ps @ ys) = slices_compare xs ys"
  by (induction ps) simp_all

end
