(* ===== verification/Utf8.thy ===== *)
theory Utf8
  imports Prelude
begin

text \<open>
  The parts of Go's \<open>unicode/utf8\<close> and \<open>unicode/utf16\<close> that the contract package calls
  (\<open>DecodeRuneInString\<close>, \<open>Valid\<close>, \<open>RuneCountInString\<close>, \<open>EncodeRune\<close>; \<open>utf16.Encode\<close>,
  \<open>utf16.IsSurrogate\<close>, \<open>utf16.DecodeRune\<close>). A rune is its code point, a natural number. The main
  facts: decoding inverts encoding on Unicode scalar values, every byte sequence that decodes
  without an error is the encoding of what it decodes to, and a valid string is exactly the
  encoding of a list of scalar values.
\<close>

section \<open>Definitions\<close>

definition rune_self :: nat where "rune_self = 128"
definition rune_error :: nat where "rune_error = 65533"

definition scalar :: "nat \<Rightarrow> bool" where
  "scalar r \<longleftrightarrow> r < 55296 \<or> (57343 < r \<and> r \<le> 1114111)"

definition in_range :: "nat \<Rightarrow> nat \<Rightarrow> char \<Rightarrow> bool" where
  "in_range lo hi c \<longleftrightarrow> lo \<le> bval c \<and> bval c \<le> hi"

text \<open>
  \<open>utf8.DecodeRuneInString\<close>: the rune and its width, \<open>(RuneError, 0)\<close> for empty input and
  \<open>(RuneError, 1)\<close> for an invalid encoding. The second byte's range depends on the first
  (no overlong forms, no surrogates, nothing above U+10FFFF).
\<close>

definition second_lo :: "nat \<Rightarrow> nat" where
  "second_lo b = (if b = 224 then 160 else if b = 240 then 144 else 128)"

definition second_hi :: "nat \<Rightarrow> nat" where
  "second_hi b = (if b = 237 then 159 else if b = 244 then 143 else 191)"

fun decode_rune :: "bytes \<Rightarrow> nat \<times> nat" where
  "decode_rune [] = (rune_error, 0)"
| "decode_rune (c0 # t) =
    (let b0 = bval c0 in
     if b0 < rune_self then (b0, 1)
     else if 194 \<le> b0 \<and> b0 \<le> 223 then
       (case t of
          c1 # _ \<Rightarrow> if in_range 128 191 c1
                    then ((b0 - 192) * 64 + (bval c1 - 128), 2) else (rune_error, 1)
        | [] \<Rightarrow> (rune_error, 1))
     else if 224 \<le> b0 \<and> b0 \<le> 239 then
       (case t of
          c1 # c2 # _ \<Rightarrow> if in_range (second_lo b0) (second_hi b0) c1 \<and> in_range 128 191 c2
             then ((b0 - 224) * 4096 + (bval c1 - 128) * 64 + (bval c2 - 128), 3)
             else (rune_error, 1)
        | _ \<Rightarrow> (rune_error, 1))
     else if 240 \<le> b0 \<and> b0 \<le> 244 then
       (case t of
          c1 # c2 # c3 # _ \<Rightarrow> if in_range (second_lo b0) (second_hi b0) c1
               \<and> in_range 128 191 c2 \<and> in_range 128 191 c3
             then ((b0 - 240) * 262144 + (bval c1 - 128) * 4096
                    + (bval c2 - 128) * 64 + (bval c3 - 128), 4)
             else (rune_error, 1)
        | _ \<Rightarrow> (rune_error, 1))
     else (rune_error, 1))"

fun utf8_valid :: "bytes \<Rightarrow> bool" where
  "utf8_valid [] = True"
| "utf8_valid (c # t) =
    (case decode_rune (c # t) of
       (r, n) \<Rightarrow> \<not> (r = rune_error \<and> n = 1) \<and> utf8_valid (drop (n - 1) t))"

text \<open>The runes a \<open>range\<close> loop sees; \<open>utf8.RuneCountInString\<close> is their number.\<close>

fun runes :: "bytes \<Rightarrow> nat list" where
  "runes [] = []"
| "runes (c # t) = (case decode_rune (c # t) of (r, n) \<Rightarrow> r # runes (drop (n - 1) t))"

definition rune_count :: "bytes \<Rightarrow> nat" where
  "rune_count s = length (runes s)"

definition encode_scalar :: "nat \<Rightarrow> bytes" where
  "encode_scalar r =
    (if r < 128 then [char_of r]
     else if r < 2048 then [char_of (192 + r div 64), char_of (128 + r mod 64)]
     else if r < 65536 then
       [char_of (224 + r div 4096), char_of (128 + r div 64 mod 64), char_of (128 + r mod 64)]
     else
       [char_of (240 + r div 262144), char_of (128 + r div 4096 mod 64),
        char_of (128 + r div 64 mod 64), char_of (128 + r mod 64)])"

definition encode_rune :: "nat \<Rightarrow> bytes" where
  "encode_rune r = encode_scalar (if scalar r then r else rune_error)"

definition encode_runes :: "nat list \<Rightarrow> bytes" where
  "encode_runes rs = concat (map encode_rune rs)"

definition is_surrogate :: "nat \<Rightarrow> bool" where
  "is_surrogate r \<longleftrightarrow> 55296 \<le> r \<and> r \<le> 57343"

text \<open>\<open>utf16.DecodeRune\<close>: the code point of a surrogate pair, \<open>RuneError\<close> for anything else.\<close>

definition utf16_decode_rune :: "nat \<Rightarrow> nat \<Rightarrow> nat" where
  "utf16_decode_rune r1 r2 =
    (if 55296 \<le> r1 \<and> r1 < 56320 \<and> 56320 \<le> r2 \<and> r2 \<le> 57343
     then (r1 - 55296) * 1024 + (r2 - 56320) + 65536 else rune_error)"

text \<open>\<open>utf16.Encode\<close> of one rune.\<close>

definition utf16_encode_rune :: "nat \<Rightarrow> nat list" where
  "utf16_encode_rune r =
    (if \<not> scalar r then [rune_error]
     else if r < 65536 then [r]
     else [55296 + (r - 65536) div 1024, 56320 + (r - 65536) mod 1024])"

definition utf16_units :: "nat list \<Rightarrow> nat list" where
  "utf16_units rs = concat (map utf16_encode_rune rs)"

section \<open>Decoding inverts encoding\<close>

lemma scalar_rune_error [simp]: "scalar rune_error"
  by (simp add: scalar_def rune_error_def)

lemma scalar_bound: "scalar r \<Longrightarrow> r < 1114112"
  by (auto simp: scalar_def)

lemma encode_rune_scalar: "scalar r \<Longrightarrow> encode_rune r = encode_scalar r"
  by (simp add: encode_rune_def)

lemma encode_rune_ascii [simp]: "r < 128 \<Longrightarrow> encode_rune r = [char_of r]"
  by (simp add: encode_rune_def encode_scalar_def scalar_def)

text \<open>One rewrite rule per encoded length, so that proofs never unfold the whole case tree.\<close>

lemma decode_rune_1: "bval a < 128 \<Longrightarrow> decode_rune (a # t) = (bval a, 1)"
  by (simp add: rune_self_def Let_def)

lemma decode_rune_2:
  "194 \<le> bval a \<Longrightarrow> bval a \<le> 223 \<Longrightarrow> in_range 128 191 b \<Longrightarrow>
   decode_rune (a # b # t) = ((bval a - 192) * 64 + (bval b - 128), 2)"
  by (simp add: rune_self_def Let_def)

lemma decode_rune_3:
  "224 \<le> bval a \<Longrightarrow> bval a \<le> 239 \<Longrightarrow> in_range (second_lo (bval a)) (second_hi (bval a)) b \<Longrightarrow>
   in_range 128 191 c \<Longrightarrow> decode_rune (a # b # c # t)
     = ((bval a - 224) * 4096 + (bval b - 128) * 64 + (bval c - 128), 3)"
  by (simp add: rune_self_def Let_def)

lemma decode_rune_4:
  "240 \<le> bval a \<Longrightarrow> bval a \<le> 244 \<Longrightarrow> in_range (second_lo (bval a)) (second_hi (bval a)) b \<Longrightarrow>
   in_range 128 191 c \<Longrightarrow> in_range 128 191 d \<Longrightarrow> decode_rune (a # b # c # d # t)
     = ((bval a - 240) * 262144 + (bval b - 128) * 4096 + (bval c - 128) * 64 + (bval d - 128), 4)"
  by (simp add: rune_self_def Let_def)

lemma base64_div: "(k::nat) < 64 \<Longrightarrow> (x * 64 + k) div 64 = x"
  by simp

lemma base64_mod: "(k::nat) < 64 \<Longrightarrow> (x * 64 + k) mod 64 = k"
  by simp

lemma div_4096: "(r::nat) div 4096 = r div 64 div 64"
  by (simp add: div_mult2_eq [symmetric])

lemma div_262144: "(r::nat) div 262144 = r div 64 div 64 div 64"
  by (simp add: div_mult2_eq [symmetric])

lemma decode_encode_2:
  assumes "128 \<le> r" "r < 2048"
  shows "decode_rune (encode_scalar r @ s) = (r, 2)"
proof -
  have "r div 64 < 32" "2 \<le> r div 64" "r mod 64 < 64" "r div 64 * 64 + r mod 64 = r"
    using assms by auto
  then show ?thesis
    using assms by (simp add: encode_scalar_def in_range_def decode_rune_2 del: decode_rune.simps)
qed

lemma digits_3:
  fixes q m k :: nat
  assumes "q < 16" "m < 64" "k < 64"
  defines "r \<equiv> q * 4096 + m * 64 + k"
  shows "r div 4096 = q" "r div 64 mod 64 = m" "r mod 64 = k"
proof -
  have r: "r = (q * 64 + m) * 64 + k"
    by (simp add: r_def)
  show "r div 4096 = q" "r div 64 mod 64 = m" "r mod 64 = k"
    using assms(2,3) by (simp_all only: r div_4096 base64_div base64_mod)
qed

lemma digits_4:
  fixes p q m k :: nat
  assumes "q < 64" "m < 64" "k < 64"
  defines "r \<equiv> p * 262144 + q * 4096 + m * 64 + k"
  shows "r div 262144 = p" "r div 4096 mod 64 = q" "r div 64 mod 64 = m" "r mod 64 = k"
proof -
  have r: "r = ((p * 64 + q) * 64 + m) * 64 + k"
    by (simp add: r_def)
  show "r div 262144 = p" "r div 4096 mod 64 = q" "r div 64 mod 64 = m" "r mod 64 = k"
    using assms(1-3) by (simp_all only: r div_4096 div_262144 base64_div base64_mod)
qed

lemma decode_encode_3:
  assumes "2048 \<le> r" "r < 65536" "scalar r"
  shows "decode_rune (encode_scalar r @ s) = (r, 3)"
proof -
  define q m k where "q = r div 4096" and "m = r div 64 mod 64" and "k = r mod 64"
  have r: "r = q * 4096 + m * 64 + k"
    using div_mult_mod_eq [of r 64] div_mult_mod_eq [of "r div 64" 64]
    unfolding q_def m_def k_def div_4096 by linarith
  have b: "q < 16" "m < 64" "k < 64"
    using assms(2) unfolding q_def m_def k_def by simp_all
  have "in_range (second_lo (224 + q)) (second_hi (224 + q)) (char_of (128 + m))"
    using assms(1,3) b r by (auto simp: scalar_def in_range_def second_lo_def second_hi_def)
  moreover have "encode_scalar r = [char_of (224 + q), char_of (128 + m), char_of (128 + k)]"
    using assms(1,2) by (simp add: encode_scalar_def q_def m_def k_def)
  ultimately show ?thesis
    using b by (simp add: decode_rune_3 in_range_def r [symmetric] del: decode_rune.simps)
qed

lemma decode_encode_4:
  assumes "65536 \<le> r" "r < 1114112"
  shows "decode_rune (encode_scalar r @ s) = (r, 4)"
proof -
  define p q m k where "p = r div 262144" and "q = r div 4096 mod 64"
    and "m = r div 64 mod 64" and "k = r mod 64"
  have r: "r = p * 262144 + q * 4096 + m * 64 + k"
    using div_mult_mod_eq [of r 64] div_mult_mod_eq [of "r div 64" 64]
      div_mult_mod_eq [of "r div 64 div 64" 64]
    unfolding p_def q_def m_def k_def div_4096 div_262144 by linarith
  have b: "p < 5" "q < 64" "m < 64" "k < 64"
    using assms(2) unfolding p_def q_def m_def k_def by simp_all
  have "in_range (second_lo (240 + p)) (second_hi (240 + p)) (char_of (128 + q))"
    using assms b r by (auto simp: in_range_def second_lo_def second_hi_def)
  moreover have "encode_scalar r
      = [char_of (240 + p), char_of (128 + q), char_of (128 + m), char_of (128 + k)]"
    using assms(1) by (simp add: encode_scalar_def p_def q_def m_def k_def)
  ultimately show ?thesis
    using b by (simp add: decode_rune_4 in_range_def r [symmetric] del: decode_rune.simps)
qed

lemma length_encode_scalar:
  "length (encode_scalar r) = (if r < 128 then 1 else if r < 2048 then 2 else if r < 65536 then 3 else 4)"
  by (simp add: encode_scalar_def)

lemma decode_encode [simp, codec]:
  assumes "scalar r"
  shows "decode_rune (encode_rune r @ s) = (r, length (encode_rune r))"
proof -
  have "r < 128 \<Longrightarrow> decode_rune (encode_scalar r @ s) = (r, 1)"
    by (simp add: encode_scalar_def decode_rune_1 del: decode_rune.simps)
  then show ?thesis
    using assms scalar_bound [OF assms] decode_encode_2 [of r s] decode_encode_3 [of r s]
      decode_encode_4 [of r s]
    by (simp add: encode_rune_scalar length_encode_scalar del: decode_rune.simps split: if_splits)
qed

lemma encode_rune_nonempty [simp]: "encode_rune r \<noteq> []"
  by (simp add: encode_rune_def encode_scalar_def)

lemma length_encode_rune_pos [simp]: "0 < length (encode_rune r)"
  by simp

section \<open>What decodes without an error is an encoding\<close>

declare decode_rune.simps(2) [simp del]

lemma in_range_bval: "in_range lo hi c \<Longrightarrow> lo \<le> bval c \<and> bval c \<le> hi"
  by (simp add: in_range_def)

lemma encode_2:
  assumes "194 \<le> bval a" "bval a \<le> 223" "in_range 128 191 b"
  defines "r \<equiv> (bval a - 192) * 64 + (bval b - 128)"
  shows "scalar r \<and> encode_rune r = [a, b]"
proof -
  have "bval b - 128 < 64"
    using in_range_bval [OF assms(3)] by linarith
  then have "r div 64 = bval a - 192" "r mod 64 = bval b - 128"
    unfolding r_def by (simp_all only: base64_div base64_mod)
  moreover have "128 \<le> r" "r < 2048"
    using assms(1-2) in_range_bval [OF assms(3)] unfolding r_def by auto
  ultimately show ?thesis
    using assms(1-2) in_range_bval [OF assms(3)]
    by (simp add: encode_rune_def encode_scalar_def scalar_def)
qed

lemma encode_3:
  assumes "224 \<le> bval a" "bval a \<le> 239"
    and "in_range (second_lo (bval a)) (second_hi (bval a)) b" "in_range 128 191 c"
  defines "r \<equiv> (bval a - 224) * 4096 + (bval b - 128) * 64 + (bval c - 128)"
  shows "scalar r \<and> encode_rune r = [a, b, c]"
proof -
  define q m k where "q = bval a - 224" and "m = bval b - 128" and "k = bval c - 128"
  have eq: "bval a = 224 + q" "bval b = 128 + m" "bval c = 128 + k"
    and b: "q < 16" "m < 64" "k < 64" and sp: "q = 0 \<Longrightarrow> 32 \<le> m" "q = 13 \<Longrightarrow> m \<le> 31"
    using assms(1-4) unfolding q_def m_def k_def
    by (auto simp: in_range_def second_lo_def second_hi_def split: if_splits)
  have r: "r = q * 4096 + m * 64 + k"
    by (simp add: r_def q_def m_def k_def)
  have "r div 4096 = q" "r div 64 mod 64 = m" "r mod 64 = k"
    using digits_3 [OF b] by (simp_all only: r)
  moreover have "2048 \<le> r" "r < 65536"
    using b sp(1) unfolding r by (cases "q = 0"; linarith)+
  moreover have "scalar r"
  proof (cases "q \<le> 13")
    case True
    then show ?thesis using b sp(2) unfolding r scalar_def by (cases "q = 13"; linarith)
  qed (use b r in \<open>simp add: scalar_def\<close>)
  ultimately show ?thesis
    by (simp add: encode_rune_def encode_scalar_def eq [symmetric])
qed

lemma encode_4:
  assumes "240 \<le> bval a" "bval a \<le> 244"
    and "in_range (second_lo (bval a)) (second_hi (bval a)) b" "in_range 128 191 c" "in_range 128 191 d"
  defines "r \<equiv> (bval a - 240) * 262144 + (bval b - 128) * 4096 + (bval c - 128) * 64 + (bval d - 128)"
  shows "scalar r \<and> encode_rune r = [a, b, c, d]"
proof -
  define p q m k where "p = bval a - 240" and "q = bval b - 128" and "m = bval c - 128"
    and "k = bval d - 128"
  have eq: "bval a = 240 + p" "bval b = 128 + q" "bval c = 128 + m" "bval d = 128 + k"
    and b: "p < 5" "q < 64" "m < 64" "k < 64" and sp: "p = 0 \<Longrightarrow> 16 \<le> q" "p = 4 \<Longrightarrow> q \<le> 15"
    using assms(1-5) unfolding p_def q_def m_def k_def
    by (auto simp: in_range_def second_lo_def second_hi_def split: if_splits)
  have r: "r = p * 262144 + q * 4096 + m * 64 + k"
    by (simp add: r_def p_def q_def m_def k_def)
  have "r div 262144 = p" "r div 4096 mod 64 = q" "r div 64 mod 64 = m" "r mod 64 = k"
    using digits_4 [OF b(2-4), of p] by (simp_all only: r)
  moreover have "65536 \<le> r"
    using b sp(1) unfolding r by (cases "p = 0"; linarith)
  moreover have "r \<le> 1114111"
    using b sp(2) unfolding r by (cases "p = 4"; linarith)
  ultimately show ?thesis
    by (simp add: encode_rune_def encode_scalar_def scalar_def eq [symmetric])
qed

lemma decode_rune_sound:
  assumes "decode_rune s = (r, n)" "s \<noteq> []" "\<not> (r = rune_error \<and> n = 1)"
  shows "scalar r \<and> n = length (encode_rune r) \<and> s = encode_rune r @ drop n s"
proof -
  obtain a t where s: "s = a # t"
    using assms(2) by (cases s) auto
  consider "bval a < 128" | "194 \<le> bval a" "bval a \<le> 223"
    | "224 \<le> bval a" "bval a \<le> 239" | "240 \<le> bval a" "bval a \<le> 244"
    using assms(1,3) by (fastforce simp: s decode_rune.simps rune_self_def split: if_splits)
  then show ?thesis
  proof cases
    case 1
    then have "r = bval a \<and> n = 1"
      using assms(1) by (simp add: s decode_rune_1)
    with 1 show ?thesis by (simp add: s scalar_def)
  next
    case 2
    then obtain b u where "t = b # u" "in_range 128 191 b"
      using assms(1,3) by (auto simp: s decode_rune.simps rune_self_def Let_def split: list.splits if_splits)
    then show ?thesis
      using 2 assms(1) encode_2 [of a b] by (auto simp: s decode_rune_2)
  next
    case 3
    then obtain b c u where "t = b # c # u" "in_range (second_lo (bval a)) (second_hi (bval a)) b"
      "in_range 128 191 c"
      using assms(1,3) by (auto simp: s decode_rune.simps rune_self_def Let_def split: list.splits if_splits)
    then show ?thesis
      using 3 assms(1) encode_3 [of a b c] by (auto simp: s decode_rune_3)
  next
    case 4
    then obtain b c d u where "t = b # c # d # u" "in_range (second_lo (bval a)) (second_hi (bval a)) b"
      "in_range 128 191 c" "in_range 128 191 d"
      using assms(1,3) by (auto simp: s decode_rune.simps rune_self_def Let_def split: list.splits if_splits)
    then show ?thesis
      using 4 assms(1) encode_4 [of a b c d] by (auto simp: s decode_rune_4)
  qed
qed

section \<open>Valid strings are lists of scalar values\<close>

lemma decode_rune_width: "s \<noteq> [] \<Longrightarrow> 1 \<le> snd (decode_rune s)"
  by (cases s) (auto simp: decode_rune.simps Let_def split: list.splits)

lemma runes_step: "s \<noteq> [] \<Longrightarrow> runes s = fst (decode_rune s) # runes (drop (snd (decode_rune s)) s)"
  using decode_rune_width [of s]
  by (cases s) (auto simp: drop_Cons' split: prod.splits)

lemma utf8_valid_step:
  "s \<noteq> [] \<Longrightarrow> utf8_valid s \<longleftrightarrow>
     decode_rune s \<noteq> (rune_error, 1) \<and> utf8_valid (drop (snd (decode_rune s)) s)"
  using decode_rune_width [of s]
  by (cases s) (auto simp: drop_Cons' split: prod.splits)

declare runes.simps(2) [simp del] utf8_valid.simps(2) [simp del]

lemma rune_error_width: "length (encode_rune rune_error) = 3"
  by (simp add: encode_rune_def encode_scalar_def rune_error_def)

lemma utf8_valid_encode [simp, codec]:
  "scalar r \<Longrightarrow> utf8_valid (encode_rune r @ s) = utf8_valid s"
  using rune_error_width by (simp add: utf8_valid_step)

lemma runes_encode [simp, codec]: "scalar r \<Longrightarrow> runes (encode_rune r @ s) = r # runes s"
  by (simp add: runes_step)

lemma utf8_induct [consumes 1, case_names empty rune]:
  assumes "utf8_valid s"
    and "P []" and "\<And>r t. scalar r \<Longrightarrow> utf8_valid t \<Longrightarrow> P t \<Longrightarrow> P (encode_rune r @ t)"
  shows "P s"
  using assms(1)
proof (induction s rule: length_induct)
  case (1 s)
  show ?case
  proof (cases "s = []")
    case False
    obtain r n where d: "decode_rune s = (r, n)" by fastforce
    with False 1(2) have *: "scalar r \<and> n = length (encode_rune r) \<and> s = encode_rune r @ drop n s"
      by (intro decode_rune_sound) (auto simp: utf8_valid_step)
    then have "length (drop n s) < length s" "utf8_valid (drop n s)"
      using False 1(2) d by (auto simp: utf8_valid_step)
    then show ?thesis
      using 1(1) * assms(3) by metis
  qed (use assms(2) in simp)
qed

lemma encode_runes_simps [simp]:
  "encode_runes [] = []" "encode_runes (r # rs) = encode_rune r @ encode_runes rs"
  "encode_runes (rs @ qs) = encode_runes rs @ encode_runes qs"
  by (simp_all add: encode_runes_def)

lemma encode_runes_of_runes [codec]: "utf8_valid s \<Longrightarrow> encode_runes (runes s) = s"
  by (induction rule: utf8_induct) simp_all

lemma runes_scalar: "utf8_valid s \<Longrightarrow> list_all scalar (runes s)"
  by (induction rule: utf8_induct) simp_all

lemma runes_encode_runes [simp, codec]: "list_all scalar rs \<Longrightarrow> runes (encode_runes rs @ s) = rs @ runes s"
  by (induction rs) simp_all

lemma utf8_valid_encode_runes [simp]:
  "list_all scalar rs \<Longrightarrow> utf8_valid (encode_runes rs @ s) = utf8_valid s"
  by (induction rs) simp_all

lemma utf8_valid_encode_runes' [simp]: "list_all scalar rs \<Longrightarrow> utf8_valid (encode_runes rs)"
  using utf8_valid_encode_runes [of rs "[]"] by simp

lemma utf8_valid_iff: "utf8_valid s \<longleftrightarrow> (\<exists>rs. list_all scalar rs \<and> s = encode_runes rs)"
  using encode_runes_of_runes runes_scalar by (metis utf8_valid_encode_runes')

lemma utf8_valid_append [simp]: "utf8_valid a \<Longrightarrow> utf8_valid (a @ b) = utf8_valid b"
  by (induction rule: utf8_induct) simp_all

lemma runes_append [simp]: "utf8_valid a \<Longrightarrow> runes (a @ b) = runes a @ runes b"
  by (induction rule: utf8_induct) simp_all

lemma runes_inj: "utf8_valid a \<Longrightarrow> utf8_valid b \<Longrightarrow> runes a = runes b \<longleftrightarrow> a = b"
  by (metis encode_runes_of_runes)

lemma encode_rune_bval [simp]: "bval c < 128 \<Longrightarrow> encode_rune (bval c) = [c]"
  by simp

lemma utf8_valid_ascii_Cons [simp]: "bval c < 128 \<Longrightarrow> utf8_valid (c # s) = utf8_valid s"
  using utf8_valid_encode [of "bval c" s] by (simp add: scalar_def)

lemma runes_ascii_Cons [simp]: "bval c < 128 \<Longrightarrow> runes (c # s) = bval c # runes s"
  using runes_encode [of "bval c" s] by (simp add: scalar_def)

lemma ascii_valid: "list_all (\<lambda>c. bval c < 128) s \<Longrightarrow> utf8_valid s \<and> runes s = map bval s"
  by (induction s) simp_all

lemma encode_rune_high:
  assumes "128 \<le> r" "c \<in> set (encode_rune r)"
  shows "128 \<le> bval c"
proof -
  have "128 \<le> (if scalar r then r else rune_error)" "(if scalar r then r else rune_error) < 1114112"
    using assms(1) scalar_bound by (auto simp: rune_error_def)
  then show ?thesis
    using assms(2) unfolding encode_rune_def encode_scalar_def
    by (auto simp: less_mult_imp_div_less split: if_splits)
qed

lemma rune_count_le: "rune_count s \<le> length s"
proof (induction s rule: runes.induct)
  case (2 c t)
  obtain r n where "decode_rune (c # t) = (r, n)" by fastforce
  with 2 show ?case
    by (auto simp: rune_count_def runes.simps intro: le_trans [OF _ diff_le_self])
qed (simp add: rune_count_def)

section \<open>Self-synchronization\<close>

lemma encode_rune_lead_tail:
  assumes "scalar r" "encode_rune r = c # t"
  shows "(bval c < 128 \<or> 192 \<le> bval c) \<and> list_all (\<lambda>d. 128 \<le> bval d \<and> bval d < 192) t"
proof -
  have "r < 1114112" using assms(1) by (rule scalar_bound)
  then have b: "r div 262144 < 5" "r < 65536 \<Longrightarrow> r div 4096 < 16" "r < 2048 \<Longrightarrow> r div 64 < 32"
    by (simp_all add: less_mult_imp_div_less)
  show ?thesis
    using assms b by (auto simp: encode_rune_scalar encode_scalar_def split: if_split_asm)
qed

text \<open>An encoded rune occurs in valid text only as one of its runes, never across two of them.\<close>

lemma runes_sublist:
  assumes "scalar r" "utf8_valid s" "sublist (encode_rune r) s"
  shows "r \<in> set (runes s)"
  using assms(2,3)
proof (induction rule: utf8_induct)
  case empty
  then show ?case by simp
next
  case (rune q t)
  from rune.prems obtain p u where s: "encode_rune q @ t = p @ encode_rune r @ u"
    by (auto simp: sublist_def)
  obtain b w where r: "encode_rune r = b # w" by (cases "encode_rune r") auto
  obtain c v where q: "encode_rune q = c # v" by (cases "encode_rune q") auto
  consider "p = []" | x where "p = encode_rune q @ x" "t = x @ encode_rune r @ u"
    | y where "p \<noteq> []" "y \<noteq> []" "encode_rune q = p @ y" "y @ t = encode_rune r @ u"
    using s by (fastforce simp: append_eq_append_conv2)
  then show ?case
  proof cases
    case 1
    then have "decode_rune (encode_rune q @ t) = decode_rune (encode_rune r @ u)" using s by simp
    then have "q = r"
      using decode_encode [OF rune.hyps(1), of t] decode_encode [OF assms(1), of u] by simp
    then show ?thesis using rune.hyps by simp
  next
    case 2
    then show ?thesis using rune by (auto simp: sublist_def)
  next
    case (3 y)
    then have "b \<in> set v"
      using q r by (cases p; cases y) auto
    then have "128 \<le> bval b \<and> bval b < 192"
      using encode_rune_lead_tail [OF rune.hyps(1) q] by (auto simp: list_all_iff)
    then show ?thesis
      using encode_rune_lead_tail [OF assms(1) r] by simp
  qed
qed

end
