(* ===== verification/Slug.thy ===== *)
theory Slug
  imports Utf8
begin

text \<open>
  \<open>internal/contract/slug.go\<close>: the path-safe slug grammar shared by \<open>source\<close>, manifest \<open>name\<close>
  and CLI \<open>consumer\<close>. \<open>validate_slug role value\<close> is \<open>None\<close> where \<open>ValidateSlug\<close> returns nil and
  the error of the failing check otherwise, in the order of the code's early returns. The lemmas
  give the accepted language exactly and the path-safety facts that the spool relies on.
\<close>

definition MaxSlugLen :: nat where "MaxSlugLen = 128"

definition slug_first :: "char \<Rightarrow> bool" where
  "slug_first c \<longleftrightarrow> (97 \<le> bval c \<and> bval c \<le> 122) \<or> (48 \<le> bval c \<and> bval c \<le> 57)"

definition slug_rest :: "char \<Rightarrow> bool" where
  "slug_rest c \<longleftrightarrow> slug_first c \<or> c = CHR ''.'' \<or> c = CHR ''_'' \<or> c = CHR ''-''"

text \<open>The pattern \<open>\A[a-z0-9][a-z0-9._-]*\z\<close>.\<close>

fun slug_pattern :: "bytes \<Rightarrow> bool" where
  "slug_pattern [] = False"
| "slug_pattern (c # t) = (slug_first c \<and> list_all slug_rest t)"

datatype slug_error =
    SlugEmpty bytes
  | SlugTooLong bytes nat
  | SlugNotCanonical bytes bytes

definition validate_slug :: "bytes \<Rightarrow> bytes \<Rightarrow> slug_error option" where
  "validate_slug role value =
    (if value = [] then Some (SlugEmpty role)
     else if rune_count value > MaxSlugLen then Some (SlugTooLong role (rune_count value))
     else if \<not> slug_pattern value then Some (SlugNotCanonical role value)
     else None)"

lemma slug_first_ascii: "slug_first c \<Longrightarrow> bval c < 128"
  by (auto simp: slug_first_def)

lemma slug_rest_ascii: "slug_rest c \<Longrightarrow> bval c < 128"
  by (auto simp: slug_rest_def dest: slug_first_ascii)

lemma slug_pattern_all: "slug_pattern s \<Longrightarrow> c \<in> set s \<Longrightarrow> slug_rest c"
  by (cases s) (auto simp: slug_rest_def list_all_iff)

lemma slug_pattern_ascii: "slug_pattern s \<Longrightarrow> list_all (\<lambda>c. bval c < 128) s"
  by (auto simp: list_all_iff dest: slug_pattern_all slug_rest_ascii)

lemma slug_pattern_rune_count: "slug_pattern s \<Longrightarrow> rune_count s = length s"
  by (simp add: rune_count_def ascii_valid slug_pattern_ascii)

lemma validate_slug_accepts:
  "validate_slug role s = None \<longleftrightarrow> slug_pattern s \<and> length s \<le> MaxSlugLen"
  by (auto simp: validate_slug_def slug_pattern_rune_count)

lemma slug_rest_not_sep: "slug_rest c \<Longrightarrow> c \<noteq> CHR ''/'' \<and> c \<noteq> CHR 0x5C \<and> 32 < bval c"
  by (auto simp: slug_rest_def slug_first_def)

lemma slug_first_not_dot: "slug_first c \<Longrightarrow> c \<noteq> CHR ''.''"
  by (auto simp: slug_first_def)

text \<open>ASCII lowercasing, the case \<open>strings.ToLower\<close> takes on an ASCII argument.\<close>

definition ascii_lower :: "char \<Rightarrow> char" where
  "ascii_lower c = (if 65 \<le> bval c \<and> bval c \<le> 90 then char_of (bval c + 32) else c)"

lemma slug_rest_lower: "slug_rest c \<Longrightarrow> ascii_lower c = c"
  by (auto simp: slug_rest_def slug_first_def ascii_lower_def)

text \<open>
  The character classes of the pattern, spelled out. Both directions go through the byte values,
  since a literal alphabet is an enumeration of them.
\<close>

lemma bval_mem: "c \<in> set cs \<longleftrightarrow> bval c \<in> set (map bval cs)"
  by (auto simp: bval_eq_iff)

lemma slug_first_alphabet: "slug_first c \<longleftrightarrow> c \<in> set ''abcdefghijklmnopqrstuvwxyz0123456789''"
proof -
  have "map bval ''abcdefghijklmnopqrstuvwxyz0123456789'' = [97 ..< 123] @ [48 ..< 58]"
    by (simp add: upt_conv_Cons)
  then have "c \<in> set ''abcdefghijklmnopqrstuvwxyz0123456789'' \<longleftrightarrow> bval c \<in> {97 ..< 123} \<union> {48 ..< 58}"
    by (simp only: bval_mem [of c] set_append set_upt)
  then show ?thesis
    unfolding slug_first_def by (simp only: Un_iff atLeastLessThan_iff) linarith
qed

lemma slug_rest_alphabet: "slug_rest c \<longleftrightarrow> c \<in> set ''abcdefghijklmnopqrstuvwxyz0123456789._-''"
proof -
  have "''abcdefghijklmnopqrstuvwxyz0123456789._-'' = ''abcdefghijklmnopqrstuvwxyz0123456789'' @ ''._-''"
    by simp
  then have "c \<in> set ''abcdefghijklmnopqrstuvwxyz0123456789._-'' \<longleftrightarrow>
      c \<in> set ''abcdefghijklmnopqrstuvwxyz0123456789'' \<or> c \<in> set ''._-''"
    by (simp only: set_append Un_iff)
  then show ?thesis
    unfolding slug_rest_def slug_first_alphabet by simp
qed

lemma validate_slug_rejects:
  assumes "validate_slug role s \<noteq> None"
  shows "validate_slug role s = Some
    (if s = [] then SlugEmpty role
     else if 128 < rune_count s then SlugTooLong role (rune_count s) else SlugNotCanonical role s)"
  using assms by (simp add: validate_slug_def MaxSlugLen_def split: if_split_asm)

text \<open>
  C40. The slug gate accepts exactly the strings that begin with one of the bytes \<open>a\<close>-\<open>z\<close>, \<open>0\<close>-\<open>9\<close>, go on
  with those or a dot, an underscore or a hyphen, and have at most 128 bytes: the
  scalar-count bound of the code and a byte bound agree on everything accepted, and in
  particular no uppercase letter and no trailing newline is accepted. A rejected string gets the error
  of the first failing check: empty, more than 128 scalar values (with their number), or outside
  the grammar.
\<close>

theorem validate_slug_language:
  "(validate_slug role s = None \<longleftrightarrow>
      (\<exists>c t. s = c # t \<and> c \<in> set ''abcdefghijklmnopqrstuvwxyz0123456789''
        \<and> set t \<subseteq> set ''abcdefghijklmnopqrstuvwxyz0123456789._-'') \<and> length s \<le> 128)
    \<and> (validate_slug role s \<noteq> None \<longrightarrow> validate_slug role s = Some
        (if s = [] then SlugEmpty role
         else if 128 < rune_count s then SlugTooLong role (rune_count s) else SlugNotCanonical role s))"
proof -
  have "slug_pattern s \<longleftrightarrow> (\<exists>c t. s = c # t \<and> c \<in> set ''abcdefghijklmnopqrstuvwxyz0123456789''
      \<and> set t \<subseteq> set ''abcdefghijklmnopqrstuvwxyz0123456789._-'')"
    unfolding slug_first_alphabet [symmetric] subset_iff slug_rest_alphabet [symmetric]
    by (cases s) (auto simp: list_all_iff)
  then show ?thesis
    using validate_slug_rejects [of role s] unfolding validate_slug_accepts MaxSlugLen_def
    by (intro conjI impI) (simp only:, assumption)
qed

theorem validate_slug_language_witness:
  "validate_slug ''source'' ''pr-comments'' = None
    \<and> validate_slug ''source'' ''pr-comments\<newline>'' = Some (SlugNotCanonical ''source'' ''pr-comments\<newline>'')
    \<and> validate_slug ''source'' ''Pr'' = Some (SlugNotCanonical ''source'' ''Pr'')"
proof -
  have ok: "validate_slug ''source'' ''pr-comments'' = None"
    using validate_slug_language [of "''source''" "''pr-comments''"] by simp
  have bad: "validate_slug ''source'' ''pr-comments\<newline>'' \<noteq> None" "validate_slug ''source'' ''Pr'' \<noteq> None"
    using validate_slug_language [of "''source''" "''pr-comments\<newline>''"] validate_slug_language [of "''source''" "''Pr''"]
    by simp_all
  have "rune_count ''pr-comments\<newline>'' = 12" "rune_count ''Pr'' = 2"
    by (simp_all add: rune_count_def ascii_valid)
  with ok bad show ?thesis
    using validate_slug_language [of "''source''" "''pr-comments\<newline>''"] validate_slug_language [of "''source''" "''Pr''"]
    by simp
qed

text \<open>
  A validated slug is safe as one path component: it has no separator, no NUL or other control
  byte, does not begin with a dot (so it is neither \<open>.\<close> nor \<open>..\<close> nor a hidden file), and is its own
  lowercasing, so two distinct validated slugs are never case-folded aliases of each other.
\<close>

theorem validate_slug_path_safe:
  assumes "validate_slug role s = None"
  shows "s \<noteq> [] \<and> hd s \<noteq> CHR ''.'' \<and> CHR ''/'' \<notin> set s \<and> CHR 0x5C \<notin> set s
    \<and> (\<forall>c \<in> set s. 32 < bval c \<and> bval c < 128) \<and> map ascii_lower s = s"
proof -
  have s: "slug_pattern s"
    using assms by (simp add: validate_slug_accepts)
  then have "s \<noteq> [] \<and> hd s \<noteq> CHR ''.''"
    by (cases s) (auto dest: slug_first_not_dot)
  moreover have "\<forall>c \<in> set s. c \<noteq> CHR ''/'' \<and> c \<noteq> CHR 0x5C \<and> 32 < bval c \<and> bval c < 128 \<and> ascii_lower c = c"
    using slug_pattern_all [OF s] slug_rest_not_sep slug_rest_ascii slug_rest_lower by blast
  ultimately show ?thesis
    by (auto intro: map_idI)
qed

theorem validate_slug_path_safe_witness:
  "hd ''ci.status_1'' \<noteq> CHR ''.'' \<and> map ascii_lower ''ci.status_1'' = ''ci.status_1''"
proof -
  have "validate_slug ''source'' ''ci.status_1'' = None"
    by (simp add: validate_slug_accepts slug_rest_def slug_first_def MaxSlugLen_def)
  from validate_slug_path_safe [OF this] show ?thesis by blast
qed

end
