(* ===== verification/Json_Decoder.thy ===== *)
theory Json_Decoder
  imports Utf8
begin

text \<open>
  The token interface of Go's \<open>encoding/json\<close> \<open>Decoder\<close> over a fully buffered input, as
  \<open>internal/contract/json.go\<close> uses it: \<open>UseNumber\<close> is set, \<open>Token\<close> and \<open>More\<close> are the only calls.
  The state is the unread input, the token state and the stack of enclosing token states. String
  bodies are scanned for well-formed escapes first and unquoted afterwards, as the library does,
  and numbers keep their lexeme. \<open>Panic\<close> stands for an index out of range on the state stack.
\<close>

section \<open>State\<close>

datatype json_err = EOF | UnexpectedEOF | SyntaxError | Panic

datatype token_state =
    TopValue | ArrayStart | ArrayValue | ArrayComma
  | ObjectStart | ObjectKey | ObjectColon | ObjectValue | ObjectComma

datatype json_token =
    Delim char | TokString bytes | TokNumber bytes | TokBool bool | TokNull

record decoder =
  d_rest :: bytes
  d_state :: token_state
  d_stack :: "token_state list"

definition new_decoder :: "bytes \<Rightarrow> decoder" where
  "new_decoder data = \<lparr>d_rest = data, d_state = TopValue, d_stack = []\<rparr>"

section \<open>Lexical scanning\<close>

definition is_space :: "char \<Rightarrow> bool" where
  "is_space c \<longleftrightarrow> c = CHR '' '' \<or> c = CHR 0x09 \<or> c = CHR 0x0D \<or> c = CHR 0x0A"

definition skip_space :: "bytes \<Rightarrow> bytes" where
  "skip_space s = dropWhile is_space s"

text \<open>Prefix a scanned lexeme to the lexeme of a successful scan of the remainder.\<close>

fun prepend :: "bytes \<Rightarrow> 'e + bytes \<times> 'r \<Rightarrow> 'e + bytes \<times> 'r" where
  "prepend p (Inl e) = Inl e"
| "prepend p (Inr (l, r)) = Inr (p @ l, r)"

fun take_hex :: "nat \<Rightarrow> bytes \<Rightarrow> json_err + bytes \<times> bytes" where
  "take_hex 0 s = Inr ([], s)"
| "take_hex (Suc n) [] = Inl UnexpectedEOF"
| "take_hex (Suc n) (c # t) =
    (if hex_val c = None then Inl SyntaxError else prepend [c] (take_hex n t))"

definition simple_escape :: "char \<Rightarrow> bool" where
  "simple_escape e \<longleftrightarrow> e = CHR ''b'' \<or> e = CHR ''f'' \<or> e = CHR ''n'' \<or> e = CHR ''r'' \<or> e = CHR ''t''
     \<or> e = CHR 0x5C \<or> e = CHR ''/'' \<or> e = CHR 0x22"

text \<open>The body of a string after its opening quote: the raw body and what follows the closing quote.\<close>

fun scan_string :: "bytes \<Rightarrow> json_err + bytes \<times> bytes" where
  "scan_string [] = Inl UnexpectedEOF"
| "scan_string (c # t) =
    (if c = CHR 0x22 then Inr ([], t)
     else if c = CHR 0x5C then
       (case t of
          [] \<Rightarrow> Inl UnexpectedEOF
        | e # u \<Rightarrow>
            if simple_escape e then prepend [c, e] (scan_string u)
            else if e = CHR ''u'' then
              (case take_hex 4 u of
                 Inl err \<Rightarrow> Inl err
               | Inr (h, _) \<Rightarrow> prepend (c # e # h) (scan_string (drop 4 u)))
            else Inl SyntaxError)
     else if bval c < 32 then Inl SyntaxError
     else prepend [c] (scan_string t))"

text \<open>
  A \<open>\uXXXX\<close> escape at the head of the input. \<open>encoding/json\<close> has this as \<open>getu4\<close>; the contract
  package has the same function as \<open>hexEscape\<close> in \<open>json.go\<close>.
\<close>

definition hex4 :: "char \<Rightarrow> char \<Rightarrow> char \<Rightarrow> char \<Rightarrow> nat option" where
  "hex4 a b c d =
    (case (hex_val a, hex_val b, hex_val c, hex_val d) of
       (Some w, Some x, Some y, Some z) \<Rightarrow> Some (w * 4096 + x * 256 + y * 16 + z)
     | _ \<Rightarrow> None)"

fun getu4 :: "bytes \<Rightarrow> nat option" where
  "getu4 (b # u # h1 # h2 # h3 # h4 # t) =
    (if b = CHR 0x5C \<and> u = CHR ''u'' then hex4 h1 h2 h3 h4 else None)"
| "getu4 _ = None"

definition escape_value :: "char \<Rightarrow> char option" where
  "escape_value e =
    (if e = CHR 0x22 \<or> e = CHR 0x5C \<or> e = CHR ''/'' \<or> e = CHR 0x27 then Some e
     else if e = CHR ''b'' then Some (CHR 0x08)
     else if e = CHR ''f'' then Some (CHR 0x0C)
     else if e = CHR ''n'' then Some (CHR 0x0A)
     else if e = CHR ''r'' then Some (CHR 0x0D)
     else if e = CHR ''t'' then Some (CHR 0x09)
     else None)"

text \<open>\<open>unquote\<close>: escapes decoded, a surrogate pair joined, anything undecodable replaced by U+FFFD.\<close>

fun unquote :: "bytes \<Rightarrow> bytes option" where
  "unquote [] = Some []"
| "unquote (c # t) =
    (if c = CHR 0x5C then
       (case t of
          [] \<Rightarrow> None
        | e # u \<Rightarrow>
            if e = CHR ''u'' then
              (case getu4 (c # t) of
                 None \<Rightarrow> None
               | Some rr \<Rightarrow>
                   let w = drop 4 u in
                   if is_surrogate rr then
                     (let dec = (case getu4 w of None \<Rightarrow> rune_error | Some r1 \<Rightarrow> utf16_decode_rune rr r1) in
                      if dec \<noteq> rune_error then map_option ((@) (encode_rune dec)) (unquote (drop 6 w))
                      else map_option ((@) (encode_rune rune_error)) (unquote w))
                   else map_option ((@) (encode_rune rr)) (unquote w))
            else (case escape_value e of
                    None \<Rightarrow> None
                  | Some v \<Rightarrow> map_option ((#) v) (unquote u)))
     else if c = CHR 0x22 \<or> bval c < 32 then None
     else if bval c < rune_self then map_option ((#) c) (unquote t)
     else (case decode_rune (c # t) of
             (r, n) \<Rightarrow> map_option ((@) (encode_rune r)) (unquote (drop (n - 1) t))))"

text \<open>Numbers, by the stages of the scanner: exponent, fraction, integer part, sign.\<close>

definition scan_digits :: "bytes \<Rightarrow> json_err + bytes \<times> bytes" where
  "scan_digits s =
    (case s of
       [] \<Rightarrow> Inl UnexpectedEOF
     | d # _ \<Rightarrow> if is_digit d then Inr (takeWhile is_digit s, dropWhile is_digit s) else Inl SyntaxError)"

definition scan_exponent :: "bytes \<Rightarrow> json_err + bytes \<times> bytes" where
  "scan_exponent s =
    (case s of
       c # t \<Rightarrow>
         if c = CHR ''e'' \<or> c = CHR ''E'' then
           (case t of
              d # u \<Rightarrow> if d = CHR ''+'' \<or> d = CHR ''-'' then prepend [c, d] (scan_digits u)
                       else prepend [c] (scan_digits t)
            | [] \<Rightarrow> Inl UnexpectedEOF)
         else Inr ([], s)
     | [] \<Rightarrow> Inr ([], s))"

definition scan_fraction :: "bytes \<Rightarrow> json_err + bytes \<times> bytes" where
  "scan_fraction s =
    (case s of
       c # t \<Rightarrow>
         if c = CHR ''.'' then
           (case scan_digits t of
              Inl e \<Rightarrow> Inl e
            | Inr (ds, u) \<Rightarrow> prepend (c # ds) (scan_exponent u))
         else scan_exponent s
     | [] \<Rightarrow> scan_exponent s)"

definition scan_unsigned :: "bytes \<Rightarrow> json_err + bytes \<times> bytes" where
  "scan_unsigned s =
    (case s of
       [] \<Rightarrow> Inl UnexpectedEOF
     | c # t \<Rightarrow>
         if c = CHR ''0'' then prepend [c] (scan_fraction t)
         else (case scan_digits s of
                 Inl e \<Rightarrow> Inl e
               | Inr (ds, u) \<Rightarrow> prepend ds (scan_fraction u)))"

definition scan_number :: "bytes \<Rightarrow> json_err + bytes \<times> bytes" where
  "scan_number s =
    (case s of
       c # t \<Rightarrow> if c = CHR ''-'' then prepend [c] (scan_unsigned t) else scan_unsigned s
     | [] \<Rightarrow> Inl UnexpectedEOF)"

fun scan_literal :: "bytes \<Rightarrow> bytes \<Rightarrow> json_err + bytes" where
  "scan_literal [] s = Inr s"
| "scan_literal (x # xs) [] = Inl UnexpectedEOF"
| "scan_literal (x # xs) (c # t) = (if c = x then scan_literal xs t else Inl SyntaxError)"

text \<open>\<open>Decode\<close> into \<open>any\<close> of one scalar value, where the input's first byte is not a space.\<close>

definition read_scalar :: "bytes \<Rightarrow> json_err + json_token \<times> bytes" where
  "read_scalar s =
    (case s of
       [] \<Rightarrow> Inl EOF
     | c # t \<Rightarrow>
         if c = CHR 0x22 then
           (case scan_string t of
              Inl e \<Rightarrow> Inl e
            | Inr (raw, r) \<Rightarrow>
                (case unquote raw of None \<Rightarrow> Inl Panic | Some x \<Rightarrow> Inr (TokString x, r)))
         else if c = CHR ''t'' then
           (case scan_literal ''true'' s of Inl e \<Rightarrow> Inl e | Inr r \<Rightarrow> Inr (TokBool True, r))
         else if c = CHR ''f'' then
           (case scan_literal ''false'' s of Inl e \<Rightarrow> Inl e | Inr r \<Rightarrow> Inr (TokBool False, r))
         else if c = CHR ''n'' then
           (case scan_literal ''null'' s of Inl e \<Rightarrow> Inl e | Inr r \<Rightarrow> Inr (TokNull, r))
         else if c = CHR ''-'' \<or> is_digit c then
           (case scan_number s of Inl e \<Rightarrow> Inl e | Inr (l, r) \<Rightarrow> Inr (TokNumber l, r))
         else Inl SyntaxError)"

section \<open>Token and More\<close>

fun value_allowed :: "token_state \<Rightarrow> bool" where
  "value_allowed st \<longleftrightarrow> st = TopValue \<or> st = ArrayStart \<or> st = ArrayValue \<or> st = ObjectValue"

fun value_end :: "token_state \<Rightarrow> token_state" where
  "value_end ArrayStart = ArrayComma"
| "value_end ArrayValue = ArrayComma"
| "value_end ObjectValue = ObjectComma"
| "value_end st = st"

definition open_delim :: "char \<Rightarrow> token_state \<Rightarrow> bytes \<Rightarrow> decoder \<Rightarrow> json_err + json_token \<times> decoder" where
  "open_delim c st t d =
    (if value_allowed (d_state d)
     then Inr (Delim c, \<lparr>d_rest = t, d_state = st, d_stack = d_state d # d_stack d\<rparr>)
     else Inl SyntaxError)"

definition close_delim :: "char \<Rightarrow> bytes \<Rightarrow> decoder \<Rightarrow> json_err + json_token \<times> decoder" where
  "close_delim c t d =
    (case d_stack d of
       [] \<Rightarrow> Inl Panic
     | st # sts \<Rightarrow> Inr (Delim c, \<lparr>d_rest = t, d_state = value_end st, d_stack = sts\<rparr>))"

definition scalar_token :: "bytes \<Rightarrow> token_state \<Rightarrow> decoder \<Rightarrow> json_err + json_token \<times> decoder" where
  "scalar_token s st d =
    (case read_scalar s of
       Inl e \<Rightarrow> Inl e
     | Inr (tok, r) \<Rightarrow> Inr (tok, d\<lparr>d_rest := r, d_state := st\<rparr>))"

lemma length_skip_space: "length (skip_space s) \<le> length s"
  by (simp add: skip_space_def length_dropWhile_le)

lemma skip_space_Cons_less: "skip_space s = c # t \<Longrightarrow> length t < length s"
  using length_skip_space [of s] by simp

function token :: "decoder \<Rightarrow> json_err + json_token \<times> decoder" where
  "token d =
    (case skip_space (d_rest d) of
       [] \<Rightarrow> Inl EOF
     | c # t \<Rightarrow>
         if c = CHR ''['' then open_delim c ArrayStart t d
         else if c = CHR '']'' then
           (if d_state d \<noteq> ArrayStart \<and> d_state d \<noteq> ArrayComma then Inl SyntaxError
            else close_delim c t d)
         else if c = CHR ''{'' then open_delim c ObjectStart t d
         else if c = CHR ''}'' then
           (if d_state d \<noteq> ObjectStart \<and> d_state d \<noteq> ObjectComma then Inl SyntaxError
            else close_delim c t d)
         else if c = CHR '':'' then
           (if d_state d \<noteq> ObjectColon then Inl SyntaxError
            else token (d\<lparr>d_rest := t, d_state := ObjectValue\<rparr>))
         else if c = CHR '','' then
           (if d_state d = ArrayComma then token (d\<lparr>d_rest := t, d_state := ArrayValue\<rparr>)
            else if d_state d = ObjectComma then token (d\<lparr>d_rest := t, d_state := ObjectKey\<rparr>)
            else Inl SyntaxError)
         else if c = CHR 0x22 \<and> (d_state d = ObjectStart \<or> d_state d = ObjectKey) then
           scalar_token (c # t) ObjectColon d
         else if \<not> value_allowed (d_state d) then Inl SyntaxError
         else scalar_token (c # t) (value_end (d_state d)) d)"
  by pat_completeness auto
termination
  by (relation "measure (\<lambda>d. length (d_rest d))") (auto dest!: skip_space_Cons_less)

declare token.simps [simp del]

definition dec_more :: "decoder \<Rightarrow> bool" where
  "dec_more d =
    (case skip_space (d_rest d) of
       [] \<Rightarrow> False
     | c # _ \<Rightarrow> c \<noteq> CHR '']'' \<and> c \<noteq> CHR ''}'')"

section \<open>Every token consumes input\<close>

lemma prepend_Inr: "prepend p x = Inr (l, r) \<longleftrightarrow> (\<exists>l'. x = Inr (l', r) \<and> l = p @ l')"
  by (cases "(p, x)" rule: prepend.cases) auto

lemma prepend_Inl [simp]: "prepend p x = Inl e \<longleftrightarrow> x = Inl e"
  by (cases "(p, x)" rule: prepend.cases) auto

lemma take_hex_append: "take_hex n s = Inr (h, r) \<Longrightarrow> s = h @ r \<and> length h = n"
  by (induction n s arbitrary: h r rule: take_hex.induct) (auto simp: prepend_Inr split: if_splits)

lemma scan_string_length: "scan_string s = Inr (raw, r) \<Longrightarrow> length r < length s"
proof (induction s arbitrary: raw r rule: scan_string.induct)
  case (2 c t)
  then show ?case
    by (fastforce simp: prepend_Inr dest: take_hex_append split: if_splits list.splits sum.splits prod.splits)
qed simp

lemma scan_digits_append: "scan_digits s = Inr (ds, r) \<Longrightarrow> s = ds @ r \<and> ds \<noteq> []"
  by (auto simp: scan_digits_def split: list.splits if_splits)

lemma scan_exponent_append: "scan_exponent s = Inr (l, r) \<Longrightarrow> s = l @ r"
  by (auto simp: scan_exponent_def prepend_Inr dest!: scan_digits_append split: list.splits if_splits)

lemma scan_fraction_append: "scan_fraction s = Inr (l, r) \<Longrightarrow> s = l @ r"
  by (auto simp: scan_fraction_def prepend_Inr dest!: scan_digits_append scan_exponent_append
      split: list.splits if_splits sum.splits)

lemma scan_unsigned_append: "scan_unsigned s = Inr (l, r) \<Longrightarrow> s = l @ r \<and> l \<noteq> []"
  by (auto simp: scan_unsigned_def prepend_Inr dest!: scan_digits_append scan_fraction_append
      split: list.splits if_splits sum.splits)

lemma scan_number_append: "scan_number s = Inr (l, r) \<Longrightarrow> s = l @ r \<and> l \<noteq> []"
  by (auto simp: scan_number_def prepend_Inr dest!: scan_unsigned_append split: list.splits if_splits)

lemma scan_literal_append: "scan_literal w s = Inr r \<longleftrightarrow> s = w @ r"
  by (induction w s rule: scan_literal.induct) auto

lemma scan_number_length: "scan_number s = Inr (l, r) \<Longrightarrow> length r < length s"
  using scan_number_append [of s l r] by auto

lemma scan_literal_length: "scan_literal w s = Inr r \<Longrightarrow> w \<noteq> [] \<Longrightarrow> length r < length s"
  by (auto simp: scan_literal_append)

lemma read_scalar_length: "read_scalar s = Inr (tok, r) \<Longrightarrow> length r < length s"
  unfolding read_scalar_def
  by (auto dest: scan_string_length scan_number_length scan_literal_length
      split: list.split_asm if_split_asm sum.split_asm option.split_asm prod.split_asm)

lemma scalar_token_length:
  "scalar_token s st d = Inr (tok, d') \<Longrightarrow> length (d_rest d') < length s"
  by (auto simp: scalar_token_def dest: read_scalar_length split: sum.splits)

lemma token_length: "token d = Inr (tok, d') \<Longrightarrow> length (d_rest d') < length (d_rest d)"
proof (induction d arbitrary: tok d' rule: token.induct)
  case (1 d)
  show ?case
  proof (cases "skip_space (d_rest d)")
    case Nil
    with 1(4) show ?thesis by (simp add: token.simps)
  next
    case (Cons c t)
    then have t: "length t < length (d_rest d)"
      by (rule skip_space_Cons_less)
    show ?thesis
      using 1(4) 1(1-3) [OF Cons] t length_skip_space [of "d_rest d"] Cons
      by (subst (asm) token.simps)
        (fastforce simp: open_delim_def close_delim_def dest: scalar_token_length
          split: if_splits list.splits)
  qed
qed

section \<open>Number lexemes\<close>

text \<open>
  The lexemes the scanner consumes entirely, and the grammar of RFC 8259 that they form: an
  optional minus sign, an integer part without a leading zero, an optional fraction and an
  optional exponent.
\<close>

definition json_number :: "bytes \<Rightarrow> bool" where
  "json_number l \<longleftrightarrow> scan_number l = Inr (l, [])"

definition digits1 :: "bytes \<Rightarrow> bool" where
  "digits1 ds \<longleftrightarrow> ds \<noteq> [] \<and> list_all is_digit ds"

definition exp_lex :: "bytes \<Rightarrow> bool" where
  "exp_lex l \<longleftrightarrow> l = [] \<or> (\<exists>c sg ds. (c = CHR ''e'' \<or> c = CHR ''E'')
     \<and> (sg = [] \<or> sg = ''+'' \<or> sg = ''-'') \<and> digits1 ds \<and> l = c # sg @ ds)"

definition frac_lex :: "bytes \<Rightarrow> bool" where
  "frac_lex l \<longleftrightarrow> exp_lex l \<or> (\<exists>ds x. digits1 ds \<and> exp_lex x \<and> l = ''.'' @ ds @ x)"

definition uns_lex :: "bytes \<Rightarrow> bool" where
  "uns_lex l \<longleftrightarrow> (\<exists>i f. (i = ''0'' \<or> digits1 i \<and> hd i \<noteq> CHR ''0'') \<and> frac_lex f \<and> l = i @ f)"

definition num_lex :: "bytes \<Rightarrow> bool" where
  "num_lex l \<longleftrightarrow> (\<exists>sg u. (sg = [] \<or> sg = ''-'') \<and> uns_lex u \<and> l = sg @ u)"

text \<open>What follows a number without being read as part of it.\<close>

definition num_stop :: "bytes \<Rightarrow> bool" where
  "num_stop r \<longleftrightarrow> (case r of [] \<Rightarrow> True
     | c # _ \<Rightarrow> \<not> is_digit c \<and> c \<noteq> CHR ''.'' \<and> c \<noteq> CHR ''e'' \<and> c \<noteq> CHR ''E'')"

lemma num_stop_simps [simp]:
  "num_stop []"
  "num_stop (c # r) \<longleftrightarrow> \<not> is_digit c \<and> c \<noteq> CHR ''.'' \<and> c \<noteq> CHR ''e'' \<and> c \<noteq> CHR ''E''"
  by (simp_all add: num_stop_def)

lemma not_digit_marks [simp]:
  "\<not> is_digit CHR ''.''" "\<not> is_digit CHR ''e''" "\<not> is_digit CHR ''E''"
  "\<not> is_digit CHR ''+''" "\<not> is_digit CHR ''-''" "is_digit CHR ''0''"
  by (simp_all add: is_digit_def)

lemma scan_digits_sound: "scan_digits s = Inr (ds, r) \<Longrightarrow> digits1 ds"
  by (auto simp: scan_digits_def digits1_def list_all_iff dest: set_takeWhileD split: list.splits if_splits)

lemma scan_digits_complete:
  assumes "digits1 ds" "r = [] \<or> \<not> is_digit (hd r)"
  shows "scan_digits (ds @ r) = Inr (ds, r)"
proof -
  have "takeWhile is_digit (ds @ r) = ds @ takeWhile is_digit r"
    "dropWhile is_digit (ds @ r) = dropWhile is_digit r"
    using assms(1) by (simp_all add: digits1_def list_all_iff takeWhile_append2 dropWhile_append2)
  moreover have "takeWhile is_digit r = []" "dropWhile is_digit r = r"
    using assms(2) by (cases r; simp)+
  ultimately show ?thesis
    using assms(1) by (cases ds) (auto simp: scan_digits_def digits1_def)
qed

lemma exp_lex_sign: "c = CHR ''e'' \<or> c = CHR ''E'' \<Longrightarrow> d = CHR ''+'' \<or> d = CHR ''-'' \<Longrightarrow> digits1 ds
    \<Longrightarrow> exp_lex (c # d # ds)"
  unfolding exp_lex_def by (intro disjI2 exI [of _ c] exI [of _ "[d]"] exI [of _ ds]) auto

lemma exp_lex_plain: "c = CHR ''e'' \<or> c = CHR ''E'' \<Longrightarrow> digits1 ds \<Longrightarrow> exp_lex (c # ds)"
  unfolding exp_lex_def by (intro disjI2 exI [of _ c] exI [of _ "[]"] exI [of _ ds]) auto

lemma scan_exponent_sound: "scan_exponent s = Inr (l, r) \<Longrightarrow> exp_lex l"
  by (auto simp: scan_exponent_def prepend_Inr intro: exp_lex_sign exp_lex_plain dest!: scan_digits_sound
      split: list.splits if_splits) (auto simp: exp_lex_def)

lemma scan_exponent_complete:
  assumes "exp_lex l" "num_stop r"
  shows "scan_exponent (l @ r) = Inr (l, r)"
proof (cases "l = []")
  case True
  with assms(2) show ?thesis by (auto simp: scan_exponent_def split: list.splits)
next
  case False
  then obtain c sg ds where l: "c = CHR ''e'' \<or> c = CHR ''E''" "sg = [] \<or> sg = ''+'' \<or> sg = ''-''"
    "digits1 ds" "l = c # sg @ ds"
    using assms(1) by (auto simp: exp_lex_def)
  moreover obtain d u where "ds = d # u" "is_digit d"
    using l(3) by (cases ds) (auto simp: digits1_def)
  moreover have "scan_digits (ds @ r) = Inr (ds, r)"
    using assms(2) l(3) by (intro scan_digits_complete) (cases r; simp)+
  ultimately show ?thesis
    by (auto simp: scan_exponent_def)
qed

lemma frac_lex_point: "digits1 ds \<Longrightarrow> exp_lex x \<Longrightarrow> frac_lex (CHR ''.'' # ds @ x)"
  by (auto simp: frac_lex_def)

lemma frac_lex_exp: "exp_lex x \<Longrightarrow> frac_lex x"
  by (simp add: frac_lex_def)

lemma scan_fraction_sound: "scan_fraction s = Inr (l, r) \<Longrightarrow> frac_lex l"
  unfolding scan_fraction_def
  by (auto simp: prepend_Inr intro: frac_lex_point frac_lex_exp dest!: scan_digits_sound scan_exponent_sound
      split: list.splits if_splits sum.splits)

lemma exp_lex_head: "exp_lex l \<Longrightarrow> num_stop r \<Longrightarrow> l @ r = [] \<or> \<not> is_digit (hd (l @ r)) \<and> hd (l @ r) \<noteq> CHR ''.''"
  by (cases r) (auto simp: exp_lex_def)

lemma scan_fraction_complete:
  assumes "frac_lex l" "num_stop r"
  shows "scan_fraction (l @ r) = Inr (l, r)"
proof (cases "exp_lex l")
  case True
  with exp_lex_head [OF True assms(2)] scan_exponent_complete [OF True assms(2)] show ?thesis
    by (auto simp: scan_fraction_def split: list.splits)
next
  case False
  then obtain ds x where l: "digits1 ds" "exp_lex x" "l = ''.'' @ ds @ x"
    using assms(1) by (auto simp: frac_lex_def)
  moreover have "scan_digits (ds @ x @ r) = Inr (ds, x @ r)"
    using exp_lex_head [OF l(2) assms(2)] l(1) by (intro scan_digits_complete) auto
  ultimately show ?thesis
    using scan_exponent_complete [OF l(2) assms(2)] by (simp add: scan_fraction_def)
qed

lemma frac_lex_head: "frac_lex l \<Longrightarrow> num_stop r \<Longrightarrow> l @ r = [] \<or> \<not> is_digit (hd (l @ r))"
  using exp_lex_head by (fastforce simp: frac_lex_def)

lemma uns_lex_zero: "frac_lex f \<Longrightarrow> uns_lex (CHR ''0'' # f)"
  unfolding uns_lex_def by (intro exI [of _ "''0''"] exI [of _ f]) simp

lemma uns_lex_digits: "digits1 i \<Longrightarrow> hd i \<noteq> CHR ''0'' \<Longrightarrow> frac_lex f \<Longrightarrow> uns_lex (i @ f)"
  unfolding uns_lex_def by (intro exI [of _ i] exI [of _ f]) simp

lemma scan_digits_hd: "scan_digits (c # t) = Inr (ds, r) \<Longrightarrow> hd ds = c"
  by (auto simp: scan_digits_def split: if_splits)

lemma scan_unsigned_sound: "scan_unsigned s = Inr (l, r) \<Longrightarrow> uns_lex l"
  unfolding scan_unsigned_def
  by (auto simp: prepend_Inr dest!: scan_fraction_sound
      intro!: uns_lex_zero uns_lex_digits dest: scan_digits_sound scan_digits_hd
      split: list.split_asm if_split_asm sum.split_asm)

lemma scan_unsigned_complete:
  assumes "uns_lex l" "num_stop r"
  shows "scan_unsigned (l @ r) = Inr (l, r)"
proof -
  obtain i f where l: "i = ''0'' \<or> digits1 i \<and> hd i \<noteq> CHR ''0''" "frac_lex f" "l = i @ f"
    using assms(1) by (auto simp: uns_lex_def)
  have f: "scan_fraction (f @ r) = Inr (f, r)"
    using l(2) assms(2) by (rule scan_fraction_complete)
  show ?thesis
  proof (cases "i = ''0''")
    case True
    then show ?thesis using f l(3) by (simp add: scan_unsigned_def)
  next
    case False
    then have i: "digits1 i" "hd i \<noteq> CHR ''0''" using l(1) by auto
    have "scan_digits (i @ f @ r) = Inr (i, f @ r)"
      using frac_lex_head [OF l(2) assms(2)] i(1) by (intro scan_digits_complete) auto
    then show ?thesis
      using f l(3) i by (cases i) (auto simp: scan_unsigned_def digits1_def)
  qed
qed

lemma uns_lex_head: "uns_lex l \<Longrightarrow> l \<noteq> [] \<and> is_digit (hd l)"
  by (auto simp: uns_lex_def digits1_def neq_Nil_conv)

lemma scan_number_sound: "scan_number s = Inr (l, r) \<Longrightarrow> num_lex l"
  unfolding scan_number_def num_lex_def
  by (fastforce simp: prepend_Inr dest: scan_unsigned_sound split: list.splits if_splits)

lemma scan_number_complete:
  assumes "num_lex l" "num_stop r"
  shows "scan_number (l @ r) = Inr (l, r)"
proof -
  obtain sg u where l: "sg = [] \<or> sg = ''-''" "uns_lex u" "l = sg @ u"
    using assms(1) by (auto simp: num_lex_def)
  obtain c t where u: "u = c # t" "is_digit c"
    using uns_lex_head [OF l(2)] by (cases u) auto
  then have "c \<noteq> CHR ''-''" by auto
  then show ?thesis
    using scan_unsigned_complete [OF l(2) assms(2)] l(1,3) u(1) by (auto simp: scan_number_def)
qed

lemma json_number_grammar: "json_number l \<longleftrightarrow> num_lex l"
  using scan_number_sound [of l l "[]"] scan_number_complete [of l "[]"]
  by (auto simp: json_number_def)

lemma scan_number_json_number: "scan_number s = Inr (l, r) \<Longrightarrow> json_number l"
  by (simp add: json_number_grammar scan_number_sound)

lemma json_number_scan [codec]: "json_number l \<Longrightarrow> num_stop r \<Longrightarrow> scan_number (l @ r) = Inr (l, r)"
  by (simp add: json_number_grammar scan_number_complete)

lemma json_number_head: "json_number l \<Longrightarrow> l \<noteq> [] \<and> (hd l = CHR ''-'' \<or> is_digit (hd l))"
  using uns_lex_head by (fastforce simp: json_number_grammar num_lex_def)

text \<open>A number lexeme is plain ASCII: digits, signs, a point and an exponent mark.\<close>

definition num_char :: "char \<Rightarrow> bool" where
  "num_char c \<longleftrightarrow> is_digit c \<or> c \<in> set ''+-.eE''"

lemma digits1_chars: "digits1 l \<Longrightarrow> list_all num_char l"
  by (auto simp: digits1_def num_char_def list_all_iff)

lemma num_char_marks: "num_char c \<longleftrightarrow> is_digit c \<or> c = CHR ''+'' \<or> c = CHR ''-'' \<or> c = CHR ''.''
    \<or> c = CHR ''e'' \<or> c = CHR ''E''"
  by (auto simp: num_char_def)

lemma exp_lex_chars: "exp_lex l \<Longrightarrow> list_all num_char l"
  unfolding exp_lex_def by (auto dest: digits1_chars simp: num_char_marks)

lemma frac_lex_chars: "frac_lex l \<Longrightarrow> list_all num_char l"
  unfolding frac_lex_def by (auto dest: digits1_chars exp_lex_chars simp: num_char_marks)

lemma uns_lex_chars: "uns_lex l \<Longrightarrow> list_all num_char l"
  unfolding uns_lex_def by (auto dest: digits1_chars frac_lex_chars simp: num_char_marks)

lemma json_number_chars: "json_number l \<Longrightarrow> list_all num_char l"
  unfolding json_number_grammar num_lex_def by (auto dest: uns_lex_chars simp: num_char_marks)

lemma num_char_ascii: "num_char c \<Longrightarrow> 32 < bval c \<and> bval c < 128 \<and> c \<noteq> CHR 0x22 \<and> c \<noteq> CHR 0x5C"
  by (auto simp: num_char_def is_digit_def)

end
