(* ===== verification/Json.thy ===== *)
theory Json
  imports Json_Decoder
begin

text \<open>
  \<open>internal/contract/json.go\<close>: the strict decoder of the parse profile. A decoded Go value is a
  \<open>jval\<close>: nil, bool, \<open>json.Number\<close> with its lexeme, string, \<open>[]any\<close>, \<open>map[string]any\<close> (an association
  list with distinct keys, in insertion order), and \<open>JOther\<close> for a value of any other dynamic type,
  which the decoder never builds. The three mutually recursive decoding functions keep the code's
  shape: each takes the decoder state and returns the new one, or the error of its first failure.
\<close>

section \<open>Values and errors\<close>

datatype jval =
    JNull
  | JBool bool
  | JNumber bytes
  | JString bytes
  | JArray "jval list"
  | JObject "(bytes \<times> jval) list"
  | JOther bytes

datatype decode_error =
    NotUtf8
  | UnpairedSurrogate nat
  | DecoderError json_err
  | TooDeep
  | UnexpectedDelim char
  | KeyNotString json_token
  | DuplicateKey bytes
  | TrailingData

definition MaxDepth :: nat where "MaxDepth = 64"

section \<open>The escaped-surrogate scan\<close>

text \<open>\<open>strconv.ParseUint\<close> in base 16; the 16-bit range is never exceeded by four digits.\<close>

fun parse_hex :: "nat \<Rightarrow> bytes \<Rightarrow> nat option" where
  "parse_hex acc [] = Some acc"
| "parse_hex acc (c # t) =
    (case hex_val c of None \<Rightarrow> None | Some v \<Rightarrow> parse_hex (acc * 16 + v) t)"

definition hexEscape :: "bytes \<Rightarrow> nat option" where
  "hexEscape data =
    (if length data < 6 \<or> data ! 0 \<noteq> CHR 0x5C \<or> data ! 1 \<noteq> CHR ''u'' then None
     else parse_hex 0 (take 4 (drop 2 data)))"

text \<open>
  The loop of \<open>rejectEscapedSurrogates\<close>, on the unread suffix \<open>data[i:]\<close>: \<open>None\<close> is nil and
  \<open>Some unit\<close> the unpaired-surrogate error for that code unit.
\<close>

fun surrogate_scan :: "bool \<Rightarrow> bytes \<Rightarrow> nat option" where
  "surrogate_scan inString [] = None"
| "surrogate_scan inString (b # t) =
    (if \<not> inString then surrogate_scan (b = CHR 0x22) t
     else if b = CHR 0x22 then surrogate_scan False t
     else if b \<noteq> CHR 0x5C then surrogate_scan True t
     else if t = [] \<or> hd t \<noteq> CHR ''u'' then surrogate_scan True (drop 1 t)
     else (case hexEscape (b # t) of
             None \<Rightarrow> None
           | Some unit \<Rightarrow>
               if \<not> is_surrogate unit then surrogate_scan True (drop 5 t)
               else (case hexEscape (drop 5 t) of
                       None \<Rightarrow> Some unit
                     | Some low \<Rightarrow>
                         if utf16_decode_rune unit low = rune_error then Some unit
                         else surrogate_scan True (drop 11 t))))"

definition rejectEscapedSurrogates :: "bytes \<Rightarrow> nat option" where
  "rejectEscapedSurrogates data = surrogate_scan False data"

section \<open>Decoding values, objects and arrays\<close>

fun token_value :: "json_token \<Rightarrow> jval" where
  "token_value (TokString s) = JString s"
| "token_value (TokNumber n) = JNumber n"
| "token_value (TokBool b) = JBool b"
| "token_value TokNull = JNull"
| "token_value (Delim c) = JOther [c]"

function decode_value :: "decoder \<Rightarrow> nat \<Rightarrow> decode_error + jval \<times> decoder"
  and decode_object :: "decoder \<Rightarrow> nat \<Rightarrow> (bytes \<times> jval) list \<Rightarrow> decode_error + (bytes \<times> jval) list \<times> decoder"
  and decode_array :: "decoder \<Rightarrow> nat \<Rightarrow> jval list \<Rightarrow> decode_error + jval list \<times> decoder"
where
  "decode_value d depth =
    (case token d of
       Inl e \<Rightarrow> Inl (DecoderError e)
     | Inr (tok, d1) \<Rightarrow>
         (case tok of
            Delim c \<Rightarrow>
              if depth > MaxDepth then Inl TooDeep
              else if c = CHR ''{'' then
                (case decode_object d1 depth [] of
                   Inl e \<Rightarrow> Inl e | Inr (obj, d2) \<Rightarrow> Inr (JObject obj, d2))
              else if c = CHR ''['' then
                (case decode_array d1 depth [] of
                   Inl e \<Rightarrow> Inl e | Inr (arr, d2) \<Rightarrow> Inr (JArray arr, d2))
              else Inl (UnexpectedDelim c)
          | _ \<Rightarrow> Inr (token_value tok, d1)))"
| "decode_object d depth obj =
    (if dec_more d then
       (case token d of
          Inl e \<Rightarrow> Inl (DecoderError e)
        | Inr (tok, d1) \<Rightarrow>
            (case tok of
               TokString key \<Rightarrow>
                 if map_of obj key \<noteq> None then Inl (DuplicateKey key)
                 else (case decode_value d1 (depth + 1) of
                         Inl e \<Rightarrow> Inl e
                       | Inr (v, d2) \<Rightarrow> decode_object d2 depth (obj @ [(key, v)]))
             | _ \<Rightarrow> Inl (KeyNotString tok)))
     else
       (case token d of
          Inl e \<Rightarrow> Inl (DecoderError e)
        | Inr (_, d1) \<Rightarrow> Inr (obj, d1)))"
| "decode_array d depth arr =
    (if dec_more d then
       (case decode_value d (depth + 1) of
          Inl e \<Rightarrow> Inl e
        | Inr (v, d1) \<Rightarrow> decode_array d1 depth (arr @ [v]))
     else
       (case token d of
          Inl e \<Rightarrow> Inl (DecoderError e)
        | Inr (_, d1) \<Rightarrow> Inr (arr, d1)))"
  by pat_completeness auto


text \<open>
  The recursive calls of a container's loop run on the decoder that the previous element returned,
  so termination needs to know, of the functions as defined so far, that every success consumed
  input. That is an induction over the domain of the recursion.
\<close>

lemma decode_dom_length:
  shows "decode_value_decode_object_decode_array_dom (Inl (d, depth)) \<Longrightarrow>
      (\<forall>v d'. decode_value d depth = Inr (v, d') \<longrightarrow> length (d_rest d') < length (d_rest d))"
    and "decode_value_decode_object_decode_array_dom (Inr (Inl (d, depth, obj))) \<Longrightarrow>
      (\<forall>v d'. decode_object d depth obj = Inr (v, d') \<longrightarrow> length (d_rest d') < length (d_rest d))"
    and "decode_value_decode_object_decode_array_dom (Inr (Inr (d, depth, arr))) \<Longrightarrow>
      (\<forall>v d'. decode_array d depth arr = Inr (v, d') \<longrightarrow> length (d_rest d') < length (d_rest d))"
proof (induction d depth and d depth obj and d depth arr
    rule: decode_value_decode_object_decode_array.pinduct)
  case (1 d depth)
  then show ?case
    by (fastforce simp: decode_value.psimps dest: token_length
        split: sum.split_asm prod.split_asm json_token.split_asm if_split_asm)
next
  case (2 d depth obj)
  then show ?case
    by (fastforce simp: decode_object.psimps dest: token_length
        split: sum.split_asm prod.split_asm json_token.split_asm if_split_asm)
next
  case (3 d depth arr)
  then show ?case
    by (fastforce simp: decode_array.psimps dest: token_length
        split: sum.split_asm prod.split_asm if_split_asm)
qed

definition decode_measure ::
  "(decoder \<times> nat) + (decoder \<times> nat \<times> (bytes \<times> jval) list) + (decoder \<times> nat \<times> jval list) \<Rightarrow> nat" where
  "decode_measure x =
    (case x of
       Inl (d, _) \<Rightarrow> 2 * length (d_rest d)
     | Inr (Inl (d, _)) \<Rightarrow> 2 * length (d_rest d)
     | Inr (Inr (d, _)) \<Rightarrow> 2 * length (d_rest d) + 1)"

termination decode_value
proof (relation "measure decode_measure", goal_cases)
  case 1
  show ?case by simp
qed (auto simp: decode_measure_def dest!: token_length decode_dom_length [rule_format])

declare decode_value.simps [simp del] decode_object.simps [simp del] decode_array.simps [simp del]

definition decodeStrict :: "bytes \<Rightarrow> decode_error + jval" where
  "decodeStrict data =
    (if \<not> utf8_valid data then Inl NotUtf8
     else (case rejectEscapedSurrogates data of
             Some unit \<Rightarrow> Inl (UnpairedSurrogate unit)
           | None \<Rightarrow>
               (case decode_value (new_decoder data) 1 of
                  Inl e \<Rightarrow> Inl e
                | Inr (v, d) \<Rightarrow>
                    (case token d of
                       Inl EOF \<Rightarrow> Inr v
                     | Inl Panic \<Rightarrow> Inl (DecoderError Panic)
                     | _ \<Rightarrow> Inl TrailingData))))"

section \<open>Well-formed values and their depth\<close>

text \<open>
  What every decoded value satisfies: strings are valid UTF-8, numbers are JSON lexemes, the keys of
  an object are distinct. The depth counts containers only, as the code's bound does.
\<close>

fun jval_wf :: "jval \<Rightarrow> bool" where
  "jval_wf JNull = True"
| "jval_wf (JBool b) = True"
| "jval_wf (JNumber n) = json_number n"
| "jval_wf (JString s) = utf8_valid s"
| "jval_wf (JArray vs) = list_all jval_wf vs"
| "jval_wf (JObject ms) =
     (distinct (map fst ms) \<and> list_all (\<lambda>(k, v). utf8_valid k \<and> jval_wf v) ms)"
| "jval_wf (JOther t) = False"

fun jdepth :: "jval \<Rightarrow> nat" where
  "jdepth (JArray vs) = Suc (foldr (\<lambda>v n. max (jdepth v) n) vs 0)"
| "jdepth (JObject ms) = Suc (foldr (\<lambda>p n. max (jdepth (snd p)) n) ms 0)"
| "jdepth _ = 0"

definition max_depth :: "jval list \<Rightarrow> nat" where
  "max_depth vs = foldr (\<lambda>v n. max (jdepth v) n) vs 0"

lemma max_depth_simps [simp]:
  "max_depth [] = 0" "max_depth (v # vs) = max (jdepth v) (max_depth vs)"
  by (simp_all add: max_depth_def)

lemma max_depth_append [simp]: "max_depth (vs @ ws) = max (max_depth vs) (max_depth ws)"
  by (induction vs) (auto simp: max.assoc)

lemma jdepth_JArray [simp]: "jdepth (JArray vs) = Suc (max_depth vs)"
  by (simp add: max_depth_def)

lemma foldr_max_depth: "foldr (\<lambda>p n. max (jdepth (snd p)) n) ms 0 = max_depth (map snd ms)"
  by (induction ms) simp_all

lemma jdepth_JObject [simp]: "jdepth (JObject ms) = Suc (max_depth (map snd ms))"
  by (simp add: foldr_max_depth)

declare jdepth.simps(1,2) [simp del]

lemma max_depth_le: "max_depth vs \<le> n \<longleftrightarrow> (\<forall>v \<in> set vs. jdepth v \<le> n)"
  by (induction vs) auto

section \<open>Decoding returns well-formed values within the depth bound\<close>

lemma utf8_valid_encode_rune: "utf8_valid (encode_rune r @ s) = utf8_valid s"
  using utf8_valid_encode [of r s] utf8_valid_encode [of rune_error s]
  by (cases "scalar r") (simp_all add: encode_rune_def)

lemma escape_value_ascii: "escape_value e = Some v \<Longrightarrow> bval v < 128"
  by (auto simp: escape_value_def split: if_splits)

lemma escape_value_valid: "escape_value e = Some v \<Longrightarrow> utf8_valid s \<Longrightarrow> utf8_valid (v # s)"
  by (simp add: escape_value_ascii)

lemma unquote_valid: "unquote raw = Some s \<Longrightarrow> utf8_valid s"
proof (induction raw arbitrary: s rule: unquote.induct)
  case (2 c t)
  then show ?case
    by (auto simp: utf8_valid_encode_rune Let_def rune_self_def intro: escape_value_valid
        split: if_split_asm list.split_asm option.split_asm prod.split_asm)
qed simp

fun token_wf :: "json_token \<Rightarrow> bool" where
  "token_wf (TokString s) = utf8_valid s"
| "token_wf (TokNumber l) = json_number l"
| "token_wf tok = True"

lemma read_scalar_wf: "read_scalar s = Inr (tok, r) \<Longrightarrow> token_wf tok \<and> (\<forall>c. tok \<noteq> Delim c)"
  unfolding read_scalar_def
  by (auto dest: unquote_valid scan_number_json_number
      split: list.split_asm if_split_asm sum.split_asm option.split_asm prod.split_asm)

lemma scalar_token_wf: "scalar_token s st d = Inr (tok, d') \<Longrightarrow> token_wf tok"
  by (auto simp: scalar_token_def dest: read_scalar_wf split: sum.split_asm)

lemma token_wf: "token d = Inr (tok, d') \<Longrightarrow> token_wf tok"
proof (induction d arbitrary: tok d' rule: token.induct)
  case (1 d)
  show ?case
  proof (cases "skip_space (d_rest d)")
    case Nil
    with 1(4) show ?thesis by (simp add: token.simps)
  next
    case (Cons c t)
    show ?thesis
      using 1(4) 1(1-3) [OF Cons] Cons
      by (subst (asm) token.simps)
        (fastforce simp: open_delim_def close_delim_def dest: scalar_token_wf split: if_splits list.splits)
  qed
qed

lemma token_value_wf: "token_wf tok \<Longrightarrow> (\<forall>c. tok \<noteq> Delim c) \<Longrightarrow> jval_wf (token_value tok) \<and> jdepth (token_value tok) = 0"
  by (cases tok) auto

lemma decode_wf:
  shows "decode_value d depth = Inr (v, d') \<Longrightarrow> depth \<le> Suc MaxDepth \<Longrightarrow>
      jval_wf v \<and> depth + jdepth v \<le> Suc MaxDepth"
    and "decode_object d depth obj = Inr (ms, d') \<Longrightarrow> depth \<le> MaxDepth \<Longrightarrow>
      jval_wf (JObject obj) \<Longrightarrow> depth + max_depth (map snd obj) \<le> MaxDepth \<Longrightarrow>
      jval_wf (JObject ms) \<and> depth + max_depth (map snd ms) \<le> MaxDepth"
    and "decode_array d depth arr = Inr (vs, d') \<Longrightarrow> depth \<le> MaxDepth \<Longrightarrow>
      jval_wf (JArray arr) \<Longrightarrow> depth + max_depth arr \<le> MaxDepth \<Longrightarrow>
      jval_wf (JArray vs) \<and> depth + max_depth vs \<le> MaxDepth"
proof (induction d depth and d depth obj and d depth arr
    arbitrary: v d' and ms d' and vs d'
    rule: decode_value_decode_object_decode_array.induct)
  case (1 d depth)
  from 1(3) obtain tok d1 where tok: "token d = Inr (tok, d1)"
    by (auto simp: decode_value.simps split: sum.split_asm)
  show ?case
  proof (cases "\<exists>c. tok = Delim c")
    case True
    then show ?thesis
      using 1(3,4) 1(1,2) [OF tok refl] tok
      by (fastforce simp: decode_value.simps split: sum.split_asm if_split_asm prod.split_asm)
  next
    case False
    then show ?thesis
      using 1(3,4) tok token_value_wf [OF token_wf [OF tok]]
      by (cases tok) (auto simp: decode_value.simps)
  qed
next
  case (2 d depth obj)
  show ?case
  proof (cases "dec_more d")
    case True
    then obtain key d1 v d2 where s: "token d = Inr (TokString key, d1)" "map_of obj key = None"
      "decode_value d1 (depth + 1) = Inr (v, d2)" "decode_object d2 depth (obj @ [(key, v)]) = Inr (ms, d')"
      using 2(3) by (auto simp: decode_object.simps [of d] split: sum.split_asm if_split_asm prod.split_asm json_token.split_asm)
    have v: "jval_wf v \<and> depth + 1 + jdepth v \<le> Suc MaxDepth"
      using 2(1) [OF True s(1) refl refl] s(2,3) 2(4) by simp
    then show ?thesis
      using 2(2) [OF True s(1) refl refl _ s(3) refl s(4)] s(1,2) 2(4-) token_wf [OF s(1)]
      by (auto simp: map_of_eq_None_iff)
  next
    case False
    then show ?thesis using 2(3-) by (auto simp: decode_object.simps [of d] split: sum.split_asm)
  qed
next
  case (3 d depth arr)
  show ?case
  proof (cases "dec_more d")
    case True
    then obtain v d1 where s: "decode_value d (depth + 1) = Inr (v, d1)"
      "decode_array d1 depth (arr @ [v]) = Inr (vs, d')"
      using 3(3) by (auto simp: decode_array.simps [of d] split: sum.split_asm)
    then show ?thesis
      using 3(1) [OF True s(1)] 3(2) [OF True s(1) refl s(2)] 3(4-) by auto
  next
    case False
    then show ?thesis using 3(3-) by (auto simp: decode_array.simps [of d] split: sum.split_asm)
  qed
qed

section \<open>The decoder never panics\<close>

text \<open>
  Exactly the outermost level is in state \<open>TopValue\<close>, so a closing bracket, which the state machine
  admits only inside a container, always finds an enclosing state on the stack.
\<close>

fun stack_ok :: "token_state list \<Rightarrow> bool" where
  "stack_ok [] = True"
| "stack_ok (s # sts) = ((s = TopValue \<longleftrightarrow> sts = []) \<and> stack_ok sts)"

definition decoder_ok :: "decoder \<Rightarrow> bool" where
  "decoder_ok d = stack_ok (d_state d # d_stack d)"

fun raw_ok :: "bytes \<Rightarrow> bool" where
  "raw_ok [] = True"
| "raw_ok (c # t) =
    (if c = CHR 0x5C then
       (case t of
          [] \<Rightarrow> False
        | e # u \<Rightarrow> if simple_escape e then raw_ok u
                   else e = CHR ''u'' \<and> 4 \<le> length u \<and> (\<forall>h \<in> set (take 4 u). hex_val h \<noteq> None) \<and> raw_ok (drop 4 u))
     else c \<noteq> CHR 0x22 \<and> 32 \<le> bval c \<and> raw_ok t)"

lemma take_hex_vals: "take_hex n s = Inr (h, r) \<Longrightarrow> \<forall>c \<in> set h. hex_val c \<noteq> None"
  by (induction n s arbitrary: h r rule: take_hex.induct) (auto simp: prepend_Inr split: if_splits)

lemma simple_escape_not_u: "\<not> simple_escape CHR ''u''"
  by (simp add: simple_escape_def)

lemma scan_string_raw_ok: "scan_string s = Inr (raw, r) \<Longrightarrow> raw_ok raw \<and> s = raw @ CHR 0x22 # r"
proof (induction s arbitrary: raw r rule: scan_string.induct)
  case (2 c t)
  consider "c = CHR 0x22" | e u where "c = CHR 0x5C" "t = e # u" "simple_escape e"
    | u h r' where "c = CHR 0x5C" "t = CHR ''u'' # u" "take_hex 4 u = Inr (h, r')"
    | "c \<noteq> CHR 0x22" "c \<noteq> CHR 0x5C" "32 \<le> bval c"
    using 2(4) by (fastforce split: if_split_asm list.split_asm sum.split_asm)
  then show ?case
  proof cases
    case 3
    then have "u = h @ r' \<and> length h = 4" "\<forall>c \<in> set h. hex_val c \<noteq> None"
      using take_hex_append take_hex_vals by blast+
    then show ?thesis
      using 2(4) 2(2) [of "CHR ''u''" u] 3 by (auto simp: prepend_Inr simple_escape_not_u)
  qed (use 2 in \<open>auto simp: prepend_Inr\<close>)
qed simp

lemma raw_ok_drop_high:
  "raw_ok t \<Longrightarrow> \<forall>c \<in> set (take n t). 128 \<le> bval c \<Longrightarrow> raw_ok (drop n t)"
proof (induction n arbitrary: t)
  case (Suc n)
  then show ?case by (cases t) (auto split: if_split_asm)
qed simp

lemma decode_rune_tail_high:
  assumes "decode_rune (c # t) = (r, n)" "128 \<le> bval c"
  shows "\<forall>b \<in> set (take (n - 1) t). 128 \<le> bval b"
proof (cases "r = rune_error \<and> n = 1")
  case False
  then have s: "scalar r \<and> n = length (encode_rune r) \<and> c # t = encode_rune r @ drop n (c # t)"
    using decode_rune_sound [OF assms(1)] by blast
  have "128 \<le> r"
  proof (rule ccontr)
    assume "\<not> 128 \<le> r"
    then have "encode_rune r = [char_of r]" by simp
    then have "c = char_of r" using s by (metis append_Cons list.inject)
    then show False using \<open>\<not> 128 \<le> r\<close> assms(2) by simp
  qed
  moreover have "take n (c # t) = encode_rune r"
    using s by (metis append_eq_conv_conj)
  moreover have "n \<noteq> 0"
    using s by (metis length_0_conv encode_rune_nonempty)
  ultimately have "c # take (n - 1) t = encode_rune r" "128 \<le> r"
    by (cases n; simp)+
  then show ?thesis
    using encode_rune_high [of r] by (metis list.set_intros(2))
qed auto

lemma getu4_shape:
  "getu4 s = Some w \<Longrightarrow> \<exists>a b c d t. s = CHR 0x5C # CHR ''u'' # a # b # c # d # t \<and> hex4 a b c d = Some w"
  by (cases s rule: getu4.cases) (auto split: if_splits)

lemma raw_ok_getu4: "raw_ok s \<Longrightarrow> getu4 s = Some w \<Longrightarrow> raw_ok (drop 6 s)"
  by (auto dest!: getu4_shape simp: simple_escape_not_u)

lemma raw_ok_u:
  assumes "raw_ok (CHR 0x5C # CHR ''u'' # u)"
  shows "\<exists>w. getu4 (CHR 0x5C # CHR ''u'' # u) = Some w" "raw_ok (drop 4 u)"
proof -
  have u: "4 \<le> length u" "\<forall>h \<in> set (take 4 u). hex_val h \<noteq> None" "raw_ok (drop 4 u)"
    using assms by (simp_all add: simple_escape_not_u)
  then obtain a b c d v where "u = a # b # c # d # v"
    by (auto simp: numeral_eq_Suc Suc_le_length_iff)
  then show "\<exists>w. getu4 (CHR 0x5C # CHR ''u'' # u) = Some w" "raw_ok (drop 4 u)"
    using u by (auto simp: hex4_def)
qed

lemma simple_escape_value: "simple_escape e \<Longrightarrow> e \<noteq> CHR ''u'' \<and> (\<exists>v. escape_value e = Some v)"
  by (auto simp: simple_escape_def escape_value_def)

lemma unquote_total: "raw_ok raw \<Longrightarrow> unquote raw \<noteq> None"
proof (induction raw rule: length_induct)
  case (1 raw)
  then have IH: "unquote s \<noteq> None" if "length s < length raw" "raw_ok s" for s
    using that by blast
  show ?case
  proof (cases raw)
    case (Cons c t)
    consider e u where "c = CHR 0x5C" "t = e # u" "simple_escape e" "raw_ok u"
      | u where "c = CHR 0x5C" "t = CHR ''u'' # u"
      | "c \<noteq> CHR 0x5C" "c \<noteq> CHR 0x22" "32 \<le> bval c" "raw_ok t"
      using 1(2) Cons by (cases t) (auto split: if_splits)
    then show ?thesis
    proof cases
      case c: 1
      then show ?thesis
        using simple_escape_value [OF c(3)] IH [of u] Cons by auto
    next
      case c: 2
      obtain w where w: "getu4 (c # t) = Some w" "raw_ok (drop 4 u)"
        using raw_ok_u [of u] 1(2) Cons c by auto
      have "raw_ok (drop 6 (drop 4 u))" if "getu4 (drop 4 u) \<noteq> None"
        using raw_ok_getu4 [OF w(2)] that by auto
      then show ?thesis
        using IH [of "drop 4 u"] IH [of "drop 6 (drop 4 u)"] w c Cons
        by (auto simp: Let_def split: option.splits)
    next
      case c: 3
      obtain r n where d: "decode_rune (c # t) = (r, n)" by fastforce
      have "raw_ok (drop (n - 1) t)" if "128 \<le> bval c"
        using raw_ok_drop_high [OF c(4)] decode_rune_tail_high [OF d that] by blast
      moreover have "length (drop (n - 1) t) < length raw"
        by (simp add: Cons)
      ultimately have "unquote (drop (n - 1) t) \<noteq> None" if "128 \<le> bval c"
        using that IH by blast
      moreover have "unquote t \<noteq> None"
        using IH [of t] c(4) Cons by simp
      ultimately show ?thesis
        using c(1-3) d by (cases "bval c < 128") (auto simp: Cons rune_self_def)
    qed
  qed simp
qed

lemma take_hex_err: "take_hex n s = Inl e \<Longrightarrow> e \<noteq> Panic"
  by (induction n s rule: take_hex.induct) (auto split: if_split_asm)

lemma scan_string_err: "scan_string s = Inl e \<Longrightarrow> e \<noteq> Panic"
proof (induction s rule: scan_string.induct)
  case (2 c t)
  then show ?case
    by (cases t) (fastforce dest: take_hex_err split: if_split_asm sum.split_asm prod.split_asm)+
qed simp

lemma scan_literal_err: "scan_literal w s = Inl e \<Longrightarrow> e \<noteq> Panic"
  by (induction w s rule: scan_literal.induct) (auto split: if_split_asm)

lemma scan_digits_err: "scan_digits s = Inl e \<Longrightarrow> e \<noteq> Panic"
  by (auto simp: scan_digits_def split: list.split_asm if_split_asm)

lemma scan_exponent_err: "scan_exponent s = Inl e \<Longrightarrow> e \<noteq> Panic"
  unfolding scan_exponent_def by (auto dest: scan_digits_err split: list.split_asm if_split_asm)

lemma scan_fraction_err: "scan_fraction s = Inl e \<Longrightarrow> e \<noteq> Panic"
  unfolding scan_fraction_def
  by (auto dest: scan_digits_err scan_exponent_err split: list.split_asm if_split_asm sum.split_asm prod.split_asm)

lemma scan_unsigned_err: "scan_unsigned s = Inl e \<Longrightarrow> e \<noteq> Panic"
  unfolding scan_unsigned_def
  by (auto dest: scan_digits_err scan_fraction_err split: list.split_asm if_split_asm sum.split_asm prod.split_asm)

lemma scan_number_err: "scan_number s = Inl e \<Longrightarrow> e \<noteq> Panic"
  unfolding scan_number_def by (auto dest: scan_unsigned_err split: list.split_asm if_split_asm)

lemmas scan_errs = scan_string_err scan_literal_err scan_number_err

lemma read_scalar_err: "read_scalar s = Inl e \<Longrightarrow> e \<noteq> Panic"
  unfolding read_scalar_def
  by (auto dest: scan_errs scan_string_raw_ok unquote_total
      split: list.split_asm if_split_asm sum.split_asm option.split_asm prod.split_asm)

lemma scalar_token_err: "scalar_token s st d = Inl e \<Longrightarrow> e \<noteq> Panic"
  by (auto simp: scalar_token_def dest: read_scalar_err split: sum.split_asm)

text \<open>A result that is not the given error and whose new state satisfies the given predicate.\<close>

definition res_ok :: "'e \<Rightarrow> ('s \<Rightarrow> bool) \<Rightarrow> 'e + 'a \<times> 's \<Rightarrow> bool" where
  "res_ok bad P r = (case r of Inl e \<Rightarrow> e \<noteq> bad | Inr p \<Rightarrow> P (snd p))"

lemma res_ok_simps [simp]:
  "res_ok bad P (Inl e) \<longleftrightarrow> e \<noteq> bad" "res_ok bad P (Inr p) \<longleftrightarrow> P (snd p)"
  by (simp_all add: res_ok_def)

lemma decoder_ok_new [simp]: "decoder_ok (new_decoder data)"
  by (simp add: decoder_ok_def new_decoder_def)

lemma value_end_Top [simp]: "value_end st = TopValue \<longleftrightarrow> st = TopValue"
  by (cases st) simp_all

lemma decoder_ok_state:
  "decoder_ok d \<Longrightarrow> st = TopValue \<longleftrightarrow> d_state d = TopValue \<Longrightarrow> decoder_ok (d\<lparr>d_rest := t, d_state := st\<rparr>)"
  by (simp add: decoder_ok_def)

lemma scalar_token_ok:
  "decoder_ok d \<Longrightarrow> st = TopValue \<longleftrightarrow> d_state d = TopValue \<Longrightarrow> res_ok Panic decoder_ok (scalar_token s st d)"
  by (auto simp: scalar_token_def intro: decoder_ok_state dest: read_scalar_err split: sum.split)

lemma open_delim_ok:
  "decoder_ok d \<Longrightarrow> st \<noteq> TopValue \<Longrightarrow> res_ok Panic decoder_ok (open_delim c st t d)"
  by (auto simp: open_delim_def decoder_ok_def)

lemma close_delim_ok:
  "decoder_ok d \<Longrightarrow> d_state d \<noteq> TopValue \<Longrightarrow> res_ok Panic decoder_ok (close_delim c t d)"
  by (auto simp: close_delim_def decoder_ok_def split: list.splits)

lemma token_ok: "decoder_ok d \<Longrightarrow> res_ok Panic decoder_ok (token d)"
proof (induction d rule: token.induct)
  case (1 d)
  show ?case
  proof (cases "skip_space (d_rest d)")
    case Nil
    then show ?thesis by (simp add: token.simps)
  next
    case (Cons c t)
    have st: "decoder_ok (d\<lparr>d_rest := t, d_state := st\<rparr>)" if "d_state d \<noteq> TopValue" "st \<noteq> TopValue" for st
      using that 1(4) by (simp add: decoder_ok_state)
    have sc: "res_ok Panic decoder_ok (scalar_token s st d)" if "st = TopValue \<longleftrightarrow> d_state d = TopValue" for s st
      using that 1(4) by (rule scalar_token_ok [rotated])
    show ?thesis
      unfolding token.simps [of d] Cons list.case
      using open_delim_ok [OF 1(4)] close_delim_ok [OF 1(4)] 1(1-3) [OF Cons] st sc
      by (simp split: if_split)
  qed
qed

lemma token_ok_step: "decoder_ok d \<Longrightarrow> token d = Inr (tok, d') \<Longrightarrow> decoder_ok d'"
  using token_ok [of d] by simp

lemma token_no_panic: "decoder_ok d \<Longrightarrow> token d \<noteq> Inl Panic"
  using token_ok [of d] by auto

lemma decode_ok:
  shows "decoder_ok d \<Longrightarrow> res_ok (DecoderError Panic) decoder_ok (decode_value d depth)"
    and "decoder_ok d \<Longrightarrow> res_ok (DecoderError Panic) decoder_ok (decode_object d depth obj)"
    and "decoder_ok d \<Longrightarrow> res_ok (DecoderError Panic) decoder_ok (decode_array d depth arr)"
proof (induction d depth and d depth obj and d depth arr
    rule: decode_value_decode_object_decode_array.induct)
  case (1 d depth)
  show ?case
  proof (cases "token d")
    case (Inl e)
    then show ?thesis using token_no_panic [OF 1(3)] by (auto simp: decode_value.simps)
  next
    case (Inr p)
    then obtain tok d1 where tok: "token d = Inr (tok, d1)" by (cases p) simp
    note ok = token_ok_step [OF 1(3) tok]
    show ?thesis
    proof (cases tok)
      case (Delim c)
      show ?thesis
        using 1(1) [OF tok refl Delim _ _ ok] 1(2) [OF tok refl Delim _ _ _ ok]
        by (auto simp: decode_value.simps [of d] tok Delim split: sum.split)
    qed (use ok in \<open>auto simp: decode_value.simps [of d] tok\<close>)
  qed
next
  case (2 d depth obj)
  show ?case
  proof (cases "token d")
    case (Inl e)
    then show ?thesis using token_no_panic [OF 2(3)] by (auto simp: decode_object.simps [of d])
  next
    case (Inr p)
    then obtain tok d1 where tok: "token d = Inr (tok, d1)" by (cases p) simp
    note ok = token_ok_step [OF 2(3) tok]
    show ?thesis
    proof (cases "dec_more d \<and> (\<exists>key. tok = TokString key \<and> map_of obj key = None)")
      case True
      then obtain key where key: "dec_more d" "tok = TokString key" "\<not> map_of obj key \<noteq> None" by auto
      show ?thesis
        using 2(1) [OF key(1) tok refl key(2,3) ok] 2(2) [OF key(1) tok refl key(2,3)] key
        by (auto simp: decode_object.simps [of d] tok split: sum.split)
    next
      case False
      then show ?thesis
        using ok by (auto simp: decode_object.simps [of d] tok split: json_token.split)
    qed
  qed
next
  case (3 d depth arr)
  show ?case
  proof (cases "dec_more d")
    case True
    show ?thesis
      using 3(1) [OF True 3(3)] 3(2) [OF True] True
      by (auto simp: decode_array.simps [of d] split: sum.split)
  next
    case False
    then show ?thesis
      using token_no_panic [OF 3(3)] token_ok_step [OF 3(3)]
      by (auto simp: decode_array.simps [of d] split: sum.split)
  qed
qed

lemma decode_value_new_ok: "decode_value (new_decoder data) depth = Inr (v, d) \<Longrightarrow> decoder_ok d"
  using decode_ok(1) [OF decoder_ok_new, of data depth] by simp

text \<open>Unfolding rules to evaluate the decoder on a closed input.\<close>

lemmas json_eval = decodeStrict_def rejectEscapedSurrogates_def new_decoder_def
  token.simps decode_value.simps decode_object.simps decode_array.simps
  skip_space_def is_space_def open_delim_def close_delim_def scalar_token_def read_scalar_def
  dec_more_def is_digit_def scan_number_def scan_unsigned_def scan_digits_def scan_fraction_def
  scan_exponent_def rune_self_def MaxDepth_def Let_def

lemma decodeStrict_accepts:
  assumes "decodeStrict data = Inr v"
  shows "utf8_valid data" and "jval_wf v" and "jdepth v \<le> MaxDepth"
proof -
  obtain d where "utf8_valid data" "decode_value (new_decoder data) 1 = Inr (v, d)"
    using assms by (auto simp: decodeStrict_def split: if_split_asm option.split_asm sum.split_asm
        json_err.split_asm)
  then show "utf8_valid data" "jval_wf v" "jdepth v \<le> MaxDepth"
    using decode_wf(1) [of "new_decoder data" 1 v d] by (simp_all add: MaxDepth_def)
qed

section \<open>The decoder's contract\<close>

text \<open>
  C38. Every value that the strict decoder accepts comes from valid UTF-8 input, is well formed (all
  strings valid UTF-8, all numbers JSON lexemes, object keys distinct at every depth) and nests at
  most 64 containers.
\<close>

theorem decodeStrict_wf:
  assumes "decodeStrict data = Inr v"
  shows "utf8_valid data \<and> jval_wf v \<and> jdepth v \<le> MaxDepth"
  using decodeStrict_accepts [OF assms] by blast

theorem decodeStrict_wf_witness:
  "jval_wf (JObject [(''a'', JArray [JNumber ''1'', JBool True])])
    \<and> jdepth (JObject [(''a'', JArray [JNumber ''1'', JBool True])]) \<le> MaxDepth"
proof -
  have "decodeStrict ''{\"a\":[1,true]}'' = Inr (JObject [(''a'', JArray [JNumber ''1'', JBool True])])"
    by (simp add: json_eval)
  from decodeStrict_wf [OF this] show ?thesis by blast
qed

text \<open>
  The decoder never indexes its empty state stack and never fails to unquote a string it has
  scanned: whatever the input, the strict decoder returns a value or an ordinary error.
\<close>

theorem decodeStrict_no_panic: "decodeStrict data \<noteq> Inl (DecoderError Panic)"
proof -
  have "decode_value (new_decoder data) 1 \<noteq> Inl (DecoderError Panic)"
    using decode_ok(1) [OF decoder_ok_new, of data 1] by auto
  then show ?thesis
    using token_no_panic [OF decode_value_new_ok, of data 1]
    by (auto simp: decodeStrict_def split: option.split sum.split json_err.split)
qed

end
