(* ===== verification/Canonical.thy ===== *)
theory Canonical
  imports Json "HOL-Library.Multiset"
begin

text \<open>
  \<open>internal/contract/canonical.go\<close>: the canonical serialization that duplicate detection hashes.
  \<open>appendCanonical\<close> and its two loops follow the code (accumulating into \<open>dst\<close>, failing on a value
  of an unsupported type). A Go map is iterated in no fixed order, so the model's association list
  is any order of its members and \<open>compareUTF16\<close> sorts the keys. The specification is in two parts:
  \<open>normal_form\<close> sorts the members of every object, \<open>render\<close> prints a value in the order it has.
\<close>

section \<open>Strings\<close>

definition hexDigitAt :: "nat \<Rightarrow> char" where
  "hexDigitAt n = hex_digits ! n"

definition appendUnicodeEscape :: "bytes \<Rightarrow> nat \<Rightarrow> bytes" where
  "appendUnicodeEscape dst r =
     dst @ [CHR 0x5C, CHR ''u'', hexDigitAt (r div 4096 mod 16), hexDigitAt (r div 256 mod 16),
            hexDigitAt (r div 16 mod 16), hexDigitAt (r mod 16)]"

text \<open>The loop body's cases for one ASCII byte, in the order of the \<open>switch\<close>.\<close>

definition appendAscii :: "bytes \<Rightarrow> char \<Rightarrow> bytes" where
  "appendAscii dst b =
    (if b = CHR 0x22 \<or> b = CHR 0x5C then dst @ [CHR 0x5C, b]
     else if b = CHR 0x08 then dst @ [CHR 0x5C, CHR ''b'']
     else if b = CHR 0x0C then dst @ [CHR 0x5C, CHR ''f'']
     else if b = CHR 0x0A then dst @ [CHR 0x5C, CHR ''n'']
     else if b = CHR 0x0D then dst @ [CHR 0x5C, CHR ''r'']
     else if b = CHR 0x09 then dst @ [CHR 0x5C, CHR ''t'']
     else if bval b < 32 then appendUnicodeEscape dst (bval b)
     else dst @ [b])"

definition line_boundary :: "nat \<Rightarrow> bool" where
  "line_boundary r \<longleftrightarrow> r = 133 \<or> r = 8232 \<or> r = 8233"

fun canonicalStringLoop :: "bytes \<Rightarrow> bytes \<Rightarrow> bytes" where
  "canonicalStringLoop dst [] = dst"
| "canonicalStringLoop dst (b # t) =
    (if bval b < rune_self then canonicalStringLoop (appendAscii dst b) t
     else (case decode_rune (b # t) of
             (r, n) \<Rightarrow>
               canonicalStringLoop
                 (if line_boundary r then appendUnicodeEscape dst r else dst @ take n (b # t))
                 (drop (n - 1) t)))"

definition appendCanonicalString :: "bytes \<Rightarrow> bytes \<Rightarrow> bytes" where
  "appendCanonicalString dst s = canonicalStringLoop (dst @ [CHR 0x22]) s @ [CHR 0x22]"

section \<open>Member ordering\<close>

fun compareUTF16 :: "bytes \<Rightarrow> bytes \<Rightarrow> int" where
  "compareUTF16 (x # a) (y # b) =
    (case (decode_rune (x # a), decode_rune (y # b)) of
       ((ra, na), (rb, nb)) \<Rightarrow>
         if ra \<noteq> rb then slices_compare (utf16_encode_rune ra) (utf16_encode_rune rb)
         else compareUTF16 (drop (na - 1) a) (drop (nb - 1) b))"
| "compareUTF16 a b = cmp_compare (length a) (length b)"

text \<open>
  \<open>slices.SortFunc\<close>, as insertion sort. The library promises only some ascending permutation; on
  the keys of a map, which are distinct and on which the comparison is a strict total order, there
  is exactly one (shown below).
\<close>

fun insertBy :: "('a \<Rightarrow> 'a \<Rightarrow> int) \<Rightarrow> 'a \<Rightarrow> 'a list \<Rightarrow> 'a list" where
  "insertBy cmp x [] = [x]"
| "insertBy cmp x (y # ys) = (if cmp x y \<le> 0 then x # y # ys else y # insertBy cmp x ys)"

definition sortFunc :: "('a \<Rightarrow> 'a \<Rightarrow> int) \<Rightarrow> 'a list \<Rightarrow> 'a list" where
  "sortFunc cmp xs = foldr (insertBy cmp) xs []"

section \<open>Serialization\<close>

datatype canon_error = UnsupportedType bytes

definition separator :: "bool \<Rightarrow> bytes \<Rightarrow> bytes" where
  "separator first dst = (if first then dst else dst @ '','')"

function appendCanonical :: "bytes \<Rightarrow> jval \<Rightarrow> canon_error + bytes"
  and appendElems :: "bytes \<Rightarrow> bool \<Rightarrow> jval list \<Rightarrow> canon_error + bytes"
  and appendMembers :: "bytes \<Rightarrow> bool \<Rightarrow> bytes list \<Rightarrow> (bytes \<times> jval) list \<Rightarrow> canon_error + bytes"
where
  "appendCanonical dst v =
    (case v of
       JNull \<Rightarrow> Inr (dst @ ''null'')
     | JBool b \<Rightarrow> Inr (dst @ (if b then ''true'' else ''false''))
     | JNumber n \<Rightarrow> Inr (dst @ n)
     | JString s \<Rightarrow> Inr (appendCanonicalString dst s)
     | JArray vs \<Rightarrow>
         (case appendElems (dst @ ''['') True vs of Inl e \<Rightarrow> Inl e | Inr d \<Rightarrow> Inr (d @ '']''))
     | JObject ms \<Rightarrow>
         (case appendMembers (dst @ ''{'') True (sortFunc compareUTF16 (map fst ms)) ms of
            Inl e \<Rightarrow> Inl e | Inr d \<Rightarrow> Inr (d @ ''}''))
     | JOther t \<Rightarrow> Inl (UnsupportedType t))"
| "appendElems dst first [] = Inr dst"
| "appendElems dst first (v # vs) =
    (case appendCanonical (separator first dst) v of
       Inl e \<Rightarrow> Inl e | Inr d \<Rightarrow> appendElems d False vs)"
| "appendMembers dst first [] ms = Inr dst"
| "appendMembers dst first (k # ks) ms =
    (case appendCanonical (appendCanonicalString (separator first dst) k @ '':'')
            (case map_of ms k of None \<Rightarrow> JNull | Some v \<Rightarrow> v) of
       Inl e \<Rightarrow> Inl e | Inr d \<Rightarrow> appendMembers d False ks ms)"
  by pat_completeness auto

definition canon_measure1 ::
  "(bytes \<times> jval) + (bytes \<times> bool \<times> jval list) + (bytes \<times> bool \<times> bytes list \<times> (bytes \<times> jval) list) \<Rightarrow> nat" where
  "canon_measure1 x =
    (case x of
       Inl (_, v) \<Rightarrow> size v
     | Inr (Inl (_, _, vs)) \<Rightarrow> size_list size vs
     | Inr (Inr (_, _, _, ms)) \<Rightarrow> size_list (\<lambda>p. size (snd p)) ms)"

definition canon_measure2 ::
  "(bytes \<times> jval) + (bytes \<times> bool \<times> jval list) + (bytes \<times> bool \<times> bytes list \<times> (bytes \<times> jval) list) \<Rightarrow> nat" where
  "canon_measure2 x =
    (case x of
       Inl (_, v) \<Rightarrow> 0
     | Inr (Inl (_, _, vs)) \<Rightarrow> Suc (length vs)
     | Inr (Inr (_, _, ks, _)) \<Rightarrow> Suc (length ks))"

lemma size_members_le: "size_list (\<lambda>p. size (snd p)) ms \<le> size_list (size_prod (\<lambda>_. 0) size) ms"
  by (induction ms) auto

lemma size_member: "size (case map_of ms k of None \<Rightarrow> JNull | Some v \<Rightarrow> v) \<le> size_list (\<lambda>p. size (snd p)) ms"
  by (auto split: option.split dest: size_list_map_of [where f = size])

termination appendCanonical
  by (relation "measures [canon_measure1, canon_measure2]")
    (auto simp: canon_measure1_def canon_measure2_def less_Suc_eq_le size_members_le
      intro: size_member [THEN le_neq_implies_less])

declare appendCanonical.simps [simp del]

text \<open>
  \<open>CanonicalDigest\<close>, over the hash function \<open>sha256\<close> of the standard library's \<open>crypto/sha256\<close>,
  which is an argument of the model.
\<close>

definition CanonicalDigest :: "(bytes \<Rightarrow> bytes) \<Rightarrow> jval \<Rightarrow> canon_error + bytes" where
  "CanonicalDigest sha256 v =
    (case appendCanonical [] v of Inl e \<Rightarrow> Inl e | Inr buf \<Rightarrow> Inr (sha256 buf))"

section \<open>The text of a string\<close>

text \<open>The specification of the string form, one rune at a time.\<close>

definition esc_rune :: "nat \<Rightarrow> bytes" where
  "esc_rune r =
    (if r < 128 then appendAscii [] (char_of r)
     else if line_boundary r then appendUnicodeEscape [] r
     else encode_rune r)"

definition escape :: "bytes \<Rightarrow> bytes" where
  "escape s = concat (map esc_rune (runes s))"

definition qstring :: "bytes \<Rightarrow> bytes" where
  "qstring s = CHR 0x22 # escape s @ [CHR 0x22]"

lemma appendUnicodeEscape_dst: "appendUnicodeEscape dst r = dst @ appendUnicodeEscape [] r"
  by (simp add: appendUnicodeEscape_def)

lemma appendAscii_dst: "appendAscii dst b = dst @ appendAscii [] b"
  by (simp add: appendAscii_def appendUnicodeEscape_dst [of dst])

lemma escape_simps [simp]:
  "escape [] = []" "scalar r \<Longrightarrow> escape (encode_rune r @ t) = esc_rune r @ escape t"
  by (simp_all add: escape_def)

lemma encode_rune_Cons_high: "128 \<le> r \<Longrightarrow> encode_rune r = b # u \<Longrightarrow> 128 \<le> bval b"
  using encode_rune_high by (metis list.set_intros(1))

lemma canonicalStringLoop_rune:
  assumes "scalar r"
  shows "canonicalStringLoop dst (encode_rune r @ t) = canonicalStringLoop (dst @ esc_rune r) t"
proof (cases "r < 128")
  case True
  then show ?thesis
    by (simp add: rune_self_def esc_rune_def appendAscii_dst [of dst])
next
  case False
  obtain b u where e: "encode_rune r = b # u" by (cases "encode_rune r") auto
  then have b: "128 \<le> bval b"
    using False encode_rune_Cons_high [of r b u] by simp
  have d: "decode_rune (b # u @ t) = (r, Suc (length u))"
    using decode_encode [OF assms, of t] by (simp add: e)
  show ?thesis
    using b False by (simp add: e d rune_self_def esc_rune_def appendUnicodeEscape_dst [of dst])
qed

lemma canonicalStringLoop_escape:
  "utf8_valid s \<Longrightarrow> canonicalStringLoop dst s = dst @ escape s"
  by (induction arbitrary: dst rule: utf8_induct) (simp_all add: canonicalStringLoop_rune)

lemma appendCanonicalString_qstring: "utf8_valid s \<Longrightarrow> appendCanonicalString dst s = dst @ qstring s"
  by (simp add: appendCanonicalString_def canonicalStringLoop_escape qstring_def)

section \<open>The member ordering is the order of UTF-16 code units\<close>

lemma utf8_cases [consumes 1, case_names empty rune]:
  assumes "utf8_valid s"
  obtains "s = []" | r t where "s = encode_rune r @ t" "scalar r" "utf8_valid t"
  using assms by (induction rule: utf8_induct) auto

lemma utf16_units_simps [simp]:
  "utf16_units [] = []" "utf16_units (r # rs) = utf16_encode_rune r @ utf16_units rs"
  by (simp_all add: utf16_units_def)

lemma utf16_split:
  assumes "scalar p" "scalar q" "p \<noteq> q"
  obtains c x y u w where "utf16_encode_rune p = c @ x # u" "utf16_encode_rune q = c @ y # w" "x \<noteq> y"
proof (cases "p < 65536 \<or> q < 65536 \<or> (p - 65536) div 1024 \<noteq> (q - 65536) div 1024")
  case True
  then have "hd (utf16_encode_rune p) \<noteq> hd (utf16_encode_rune q)"
    using assms by (auto simp: utf16_encode_rune_def scalar_def split: if_splits)
  then show ?thesis
    using that [of "[]"] by (cases "utf16_encode_rune p"; cases "utf16_encode_rune q")
      (auto simp: utf16_encode_rune_def split: if_splits)
next
  case False
  then have "(p - 65536) mod 1024 \<noteq> (q - 65536) mod 1024"
    using assms(3) by (metis div_mult_mod_eq eq_diff_iff not_less)
  then show ?thesis
    using that [of "[55296 + (p - 65536) div 1024]" "56320 + (p - 65536) mod 1024" "[]"
        "56320 + (q - 65536) mod 1024" "[]"] False assms(1,2)
    by (auto simp: utf16_encode_rune_def)
qed

lemma slices_compare_split:
  assumes "scalar p" "scalar q" "p \<noteq> q"
  shows "slices_compare (utf16_encode_rune p @ xs) (utf16_encode_rune q @ ys)
       = slices_compare (utf16_encode_rune p) (utf16_encode_rune q)"
  using utf16_split [OF assms] by (metis append.assoc append_Cons slices_compare.simps(4) slices_compare_append)

lemma utf16_encode_nonempty [simp]: "utf16_encode_rune r \<noteq> []"
  by (simp add: utf16_encode_rune_def)

lemma slices_compare_Nil_left: "xs \<noteq> [] \<Longrightarrow> slices_compare [] xs = - 1"
  by (cases xs) auto

lemma slices_compare_Nil_right: "xs \<noteq> [] \<Longrightarrow> slices_compare xs [] = 1"
  by (cases xs) auto

lemma compareUTF16_runes:
  assumes "scalar p" "scalar q"
  shows "compareUTF16 (encode_rune p @ s) (encode_rune q @ t) =
    (if p \<noteq> q then slices_compare (utf16_encode_rune p) (utf16_encode_rune q) else compareUTF16 s t)"
proof -
  obtain b u c w where e: "encode_rune p = b # u" "encode_rune q = c # w"
    by (cases "encode_rune p"; cases "encode_rune q") auto
  then have "decode_rune (b # u @ s) = (p, Suc (length u))" "decode_rune (c # w @ t) = (q, Suc (length w))"
    using decode_encode [OF assms(1), of s] decode_encode [OF assms(2), of t] by simp_all
  then show ?thesis by (auto simp: e)
qed

lemma compareUTF16_Nil:
  "b \<noteq> [] \<Longrightarrow> compareUTF16 [] b = - 1" "a \<noteq> [] \<Longrightarrow> compareUTF16 a [] = 1" "compareUTF16 [] [] = 0"
  by (cases b; simp add: cmp_compare_def) (cases a; simp add: cmp_compare_def)+

lemma compareUTF16_units:
  "utf8_valid a \<Longrightarrow> utf8_valid b \<Longrightarrow>
   compareUTF16 a b = slices_compare (utf16_units (runes a)) (utf16_units (runes b))"
proof (induction arbitrary: b rule: utf8_induct)
  case empty
  then show ?case
    by (cases b rule: utf8_cases)
      (auto simp: compareUTF16_Nil slices_compare_Nil_left simp del: compareUTF16.simps)
next
  case (rune r t)
  from rune.prems show ?case
  proof (cases b rule: utf8_cases)
    case empty
    then show ?thesis using rune by (simp add: compareUTF16_Nil slices_compare_Nil_right del: compareUTF16.simps)
  next
    case q: (rune q u)
    then show ?thesis
      using rune.hyps rune.IH [OF q(3)] slices_compare_split [OF rune.hyps(1) q(2)]
      by (auto simp: compareUTF16_runes slices_compare_append)
  qed
qed

lemma utf16_units_inj:
  "list_all scalar rs \<Longrightarrow> list_all scalar qs \<Longrightarrow> utf16_units rs = utf16_units qs \<Longrightarrow> rs = qs"
proof (induction rs arbitrary: qs)
  case Nil
  then show ?case by (cases qs) auto
next
  case (Cons r rs)
  then obtain q qs' where qs: "qs = q # qs'" "scalar q" "list_all scalar qs'" by (cases qs) auto
  have "r = q"
  proof (rule ccontr)
    assume "r \<noteq> q"
    moreover have "scalar r" using Cons.prems(1) by simp
    ultimately obtain c x y u w where
      "utf16_encode_rune r = c @ x # u" "utf16_encode_rune q = c @ y # w" "x \<noteq> y"
      by (metis utf16_split [OF _ qs(2)])
    then show False
      using Cons.prems(3) qs(1) by simp
  qed
  then show ?case using Cons qs by auto
qed

lemma compareUTF16_eq_0: "utf8_valid a \<Longrightarrow> utf8_valid b \<Longrightarrow> compareUTF16 a b = 0 \<longleftrightarrow> a = b"
  using utf16_units_inj [OF runes_scalar runes_scalar, of a b] runes_inj [of a b]
  by (auto simp: compareUTF16_units slices_compare_eq_0)

lemma compareUTF16_swap: "utf8_valid a \<Longrightarrow> utf8_valid b \<Longrightarrow> compareUTF16 b a = - compareUTF16 a b"
  using slices_compare_swap [of "utf16_units (runes a)"] by (simp add: compareUTF16_units)

lemma compareUTF16_trans:
  "utf8_valid a \<Longrightarrow> utf8_valid b \<Longrightarrow> utf8_valid c \<Longrightarrow> compareUTF16 a b < 0 \<Longrightarrow> compareUTF16 b c < 0 \<Longrightarrow>
   compareUTF16 a c < 0"
  using slices_compare_trans [of "utf16_units (runes a)"] by (simp add: compareUTF16_units)

section \<open>Sorting the keys of an object\<close>

lemma mset_insertBy [simp]: "mset (insertBy cmp x xs) = add_mset x (mset xs)"
  by (induction xs) auto

lemma mset_sortFunc [simp]: "mset (sortFunc cmp xs) = mset xs"
  by (induction xs) (simp_all add: sortFunc_def)

lemma set_sortFunc [simp]: "set (sortFunc cmp xs) = set xs"
  by (metis mset_sortFunc set_mset_mset)

lemma length_sortFunc [simp]: "length (sortFunc cmp xs) = length xs"
  by (metis mset_sortFunc size_mset)

lemma insertBy_map: "map f (insertBy (\<lambda>p q. cmp (f p) (f q)) x xs) = insertBy cmp (f x) (map f xs)"
  by (induction xs) simp_all

lemma sortFunc_map: "map f (sortFunc (\<lambda>p q. cmp (f p) (f q)) xs) = sortFunc cmp (map f xs)"
  by (induction xs) (simp_all add: sortFunc_def insertBy_map)

text \<open>Two lists strictly ascending in an asymmetric relation with the same elements are equal.\<close>

lemma sorted_wrt_unique:
  assumes "sorted_wrt R xs" "sorted_wrt R ys" "set xs = set ys"
    and "\<And>x y. x \<in> set xs \<Longrightarrow> y \<in> set xs \<Longrightarrow> R x y \<Longrightarrow> \<not> R y x"
  shows "xs = ys"
  using assms
proof (induction xs arbitrary: ys)
  case (Cons x xs)
  from Cons.prems(3) obtain y ys' where ys: "ys = y # ys'" by (cases ys) auto
  have irr: "\<not> R z z" if "z \<in> set (x # xs)" for z
    using Cons.prems(4) that by blast
  have xR: "\<forall>z \<in> set xs. R x z"
    using Cons.prems(1) by simp
  have yR: "\<forall>z \<in> set ys'. R y z"
    using Cons.prems(2) ys by simp
  have eq: "insert x (set xs) = insert y (set ys')"
    using Cons.prems(3) ys by simp
  have "x = y"
  proof (rule ccontr)
    assume "x \<noteq> y"
    have "x \<in> insert y (set ys')" by (simp add: eq [symmetric])
    then have "x \<in> set ys'" using \<open>x \<noteq> y\<close> by simp
    moreover have "y \<in> insert x (set xs)" by (simp add: eq)
    then have "y \<in> set xs" using \<open>x \<noteq> y\<close> by simp
    ultimately have "R y x" "R x y" using xR yR by simp_all
    then show False using Cons.prems(4) \<open>y \<in> set xs\<close> by (meson list.set_intros)
  qed
  then have "set xs = set ys'"
    using eq xR yR irr by (metis insert_ident list.set_intros(1))
  then have "xs = ys'"
    using Cons.prems(1,2,4) ys by (intro Cons.IH) simp_all
  with \<open>x = y\<close> show ?case using ys by simp
qed simp

text \<open>
  What \<open>slices.SortFunc\<close> needs of its comparison, on the elements \<open>ok\<close> that it is called with: a strict
  total order. Then the ascending permutation is unique, so nothing depends on the algorithm or
  on the order the elements came in.
\<close>

locale comparator =
  fixes cmp :: "'k \<Rightarrow> 'k \<Rightarrow> int" and ok :: "'k \<Rightarrow> bool"
  assumes swap: "ok a \<Longrightarrow> ok b \<Longrightarrow> cmp b a = - cmp a b"
    and eq_0: "ok a \<Longrightarrow> ok b \<Longrightarrow> cmp a b = 0 \<longleftrightarrow> a = b"
    and trans: "ok a \<Longrightarrow> ok b \<Longrightarrow> ok c \<Longrightarrow> cmp a b < 0 \<Longrightarrow> cmp b c < 0 \<Longrightarrow> cmp a c < 0"
begin

lemma insertBy_sorted:
  assumes "sorted_wrt (\<lambda>p q. cmp (key p) (key q) < 0) xs"
    and "key p \<notin> key ` set xs" "ok (key p)" "\<forall>q \<in> set xs. ok (key q)"
  shows "sorted_wrt (\<lambda>p q. cmp (key p) (key q) < 0) (insertBy (\<lambda>p q. cmp (key p) (key q)) p xs)"
  using assms
proof (induction xs)
  case (Cons q xs)
  have ok: "ok (key p)" "ok (key q)" "key p \<noteq> key q"
    using Cons.prems by auto
  show ?case
  proof (cases "cmp (key p) (key q) \<le> 0")
    case True
    then have less: "cmp (key p) (key q) < 0"
      using eq_0 [OF ok(1,2)] ok(3) by simp
    have "cmp (key p) (key r) < 0" if "r \<in> set xs" for r
      using trans [OF ok(1,2) _ less] Cons.prems that by simp
    with less True Cons.prems(1) show ?thesis by simp
  next
    case False
    then have "cmp (key q) (key p) < 0"
      using swap [OF ok(1,2)] by simp
    moreover have "set (insertBy (\<lambda>p q. cmp (key p) (key q)) p xs) = insert p (set xs)"
      by (metis mset_insertBy set_mset_mset set_mset_add_mset_insert)
    ultimately show ?thesis
      using False Cons by simp
  qed
qed simp

lemma sorted_by_key:
  "distinct (map key xs) \<Longrightarrow> \<forall>x \<in> set xs. ok (key x) \<Longrightarrow>
   sorted_wrt (\<lambda>p q. cmp (key p) (key q) < 0) (sortFunc (\<lambda>p q. cmp (key p) (key q)) xs)"
proof (induction xs)
  case (Cons x xs)
  have "set (foldr (insertBy (\<lambda>p q. cmp (key p) (key q))) xs []) = set xs"
    using set_sortFunc [of "\<lambda>p q. cmp (key p) (key q)" xs] by (simp add: sortFunc_def)
  then show ?case
    using Cons by (simp add: sortFunc_def insertBy_sorted)
qed (simp add: sortFunc_def)

lemma sorted_unique_by_key:
  assumes "sorted_wrt (\<lambda>p q. cmp (key p) (key q) < 0) xs" "sorted_wrt (\<lambda>p q. cmp (key p) (key q) < 0) ys"
    and "set xs = set ys" "\<forall>x \<in> set xs. ok (key x)"
  shows "xs = ys"
proof (rule sorted_wrt_unique [OF assms(1-3)])
  fix x y assume "x \<in> set xs" "y \<in> set xs" "cmp (key x) (key y) < 0"
  then show "\<not> cmp (key y) (key x) < 0"
    using swap [of "key x" "key y"] assms(4) by simp
qed

lemmas sorted = sorted_by_key [of "\<lambda>x. x", simplified]
lemmas sorted_unique = sorted_unique_by_key [of "\<lambda>x. x", simplified]

end

interpretation utf16: comparator compareUTF16 utf8_valid
  by unfold_locales (fact compareUTF16_swap compareUTF16_eq_0 compareUTF16_trans)+

definition key_less :: "bytes \<times> 'v \<Rightarrow> bytes \<times> 'v \<Rightarrow> bool" where
  "key_less p q \<longleftrightarrow> compareUTF16 (fst p) (fst q) < 0"

definition sort_members :: "(bytes \<times> 'v) list \<Rightarrow> (bytes \<times> 'v) list" where
  "sort_members ms = sortFunc (\<lambda>p q. compareUTF16 (fst p) (fst q)) ms"

definition keys_ok :: "(bytes \<times> 'v) list \<Rightarrow> bool" where
  "keys_ok ms \<longleftrightarrow> distinct (map fst ms) \<and> (\<forall>p \<in> set ms. utf8_valid (fst p))"

lemma key_less_abs: "key_less = (\<lambda>p q. compareUTF16 (fst p) (fst q) < 0)"
  by (intro ext) (simp add: key_less_def)

lemma set_sort_members [simp]: "set (sort_members ms) = set ms"
  by (simp add: sort_members_def)

lemma map_fst_sort_members: "map fst (sort_members ms) = sortFunc compareUTF16 (map fst ms)"
  by (simp add: sort_members_def sortFunc_map)

lemma sort_members_sorted: "keys_ok ms \<Longrightarrow> sorted_wrt key_less (sort_members ms)"
  unfolding key_less_abs sort_members_def keys_ok_def by (rule utf16.sorted_by_key) auto

lemma sorted_members_unique:
  "sorted_wrt key_less ms \<Longrightarrow> sorted_wrt key_less ns \<Longrightarrow> set ms = set ns \<Longrightarrow> keys_ok ms \<Longrightarrow> ms = ns"
  unfolding key_less_abs keys_ok_def by (rule utf16.sorted_unique_by_key) auto

lemma keys_ok_sort_members [simp]: "keys_ok (sort_members ms) = keys_ok ms"
  by (auto simp: keys_ok_def map_fst_sort_members)
    (metis mset_eq_imp_distinct_iff mset_sortFunc)+

lemma sort_members_cong: "set ms = set ns \<Longrightarrow> keys_ok ms \<Longrightarrow> keys_ok ns \<Longrightarrow> sort_members ms = sort_members ns"
  by (intro sorted_members_unique sort_members_sorted) simp_all

section \<open>Normal form and rendering\<close>

fun normal_form :: "jval \<Rightarrow> jval" where
  "normal_form (JArray vs) = JArray (map normal_form vs)"
| "normal_form (JObject ms) = JObject (sort_members (map (\<lambda>(k, v). (k, normal_form v)) ms))"
| "normal_form v = v"

fun join_items :: "bool \<Rightarrow> bytes list \<Rightarrow> bytes" where
  "join_items first [] = []"
| "join_items first (x # xs) = (if first then x else '','' @ x) @ join_items False xs"

fun render :: "jval \<Rightarrow> bytes" where
  "render JNull = ''null''"
| "render (JBool b) = (if b then ''true'' else ''false'')"
| "render (JNumber n) = n"
| "render (JString s) = qstring s"
| "render (JArray vs) = ''['' @ join_items True (map render vs) @ '']''"
| "render (JObject ms) = ''{'' @ join_items True (map (\<lambda>(k, v). qstring k @ '':'' @ render v) ms) @ ''}''"
| "render (JOther t) = []"

definition canon :: "jval \<Rightarrow> bytes" where
  "canon v = render (normal_form v)"

lemma jval_wf_JObject: "jval_wf (JObject ms) \<longleftrightarrow> keys_ok ms \<and> (\<forall>p \<in> set ms. jval_wf (snd p))"
  by (auto simp: keys_ok_def list_all_iff)

declare jval_wf.simps(6) [simp del]

definition member_text :: "(bytes \<times> jval) list \<Rightarrow> bytes \<Rightarrow> bytes" where
  "member_text ms k = qstring k @ '':'' @ canon (case map_of ms k of None \<Rightarrow> JNull | Some v \<Rightarrow> v)"

lemma separator_eq: "separator first dst = dst @ (if first then [] else '','')"
  by (simp add: separator_def)

lemma appendCanonical_canon_aux:
  shows "jval_wf v \<Longrightarrow> appendCanonical dst v = Inr (dst @ canon v)"
    and "list_all jval_wf vs \<Longrightarrow> appendElems dst first vs = Inr (dst @ join_items first (map canon vs))"
    and "jval_wf (JObject ms) \<Longrightarrow> set ks \<subseteq> fst ` set ms \<Longrightarrow>
      appendMembers dst first ks ms = Inr (dst @ join_items first (map (member_text ms) ks))"
proof (induction dst v and dst first vs and dst first ks ms
    rule: appendCanonical_appendElems_appendMembers.induct)
  case (1 dst v)
  show ?case
  proof (cases v)
    case (JObject ms)
    have "\<And>p. p \<in> set (sort_members (map (\<lambda>(k, v). (k, normal_form v)) ms)) \<Longrightarrow>
        qstring (fst p) @ '':'' @ render (snd p) = member_text ms (fst p)"
      using 1(3) by (auto simp: JObject jval_wf_JObject keys_ok_def member_text_def canon_def)
    then have m: "map (\<lambda>(k, v). qstring k @ CHR '':'' # render v) (sort_members (map (\<lambda>(k, v). (k, normal_form v)) ms))
        = map (member_text ms) (map fst (sort_members (map (\<lambda>(k, v). (k, normal_form v)) ms)))"
      by (auto simp del: set_sort_members)
    have k: "map fst (sort_members (map (\<lambda>(k, v). (k, normal_form v)) ms)) = sortFunc compareUTF16 (map fst ms)"
      by (simp add: map_fst_sort_members comp_def case_prod_beta)
    have "appendMembers (dst @ ''{'') True (sortFunc compareUTF16 (map fst ms)) ms
        = Inr ((dst @ ''{'') @ join_items True (map (member_text ms) (sortFunc compareUTF16 (map fst ms))))"
      using 1(2) [OF JObject] 1(3) JObject by simp
    then show ?thesis
      by (simp add: appendCanonical.simps JObject canon_def m k)
  qed (use 1 in \<open>auto simp: appendCanonical.simps canon_def appendCanonicalString_qstring comp_def\<close>)
next
  case (5 dst first k ks ms)
  then have "utf8_valid k" "k \<in> fst ` set ms"
    by (auto simp: jval_wf_JObject keys_ok_def)
  moreover then obtain v where "map_of ms k = Some v" "jval_wf v"
    using 5(3) by (metis (no_types, lifting) jval_wf_JObject map_of_SomeD map_of_eq_None_iff not_None_eq
        snd_conv dom_map_of_conv_image_fst domIff)
  ultimately show ?case
    using 5 by (auto simp: appendCanonicalString_qstring separator_eq member_text_def)
qed (auto simp: separator_eq)

lemma appendCanonical_canon: "jval_wf v \<Longrightarrow> appendCanonical dst v = Inr (dst @ canon v)"
  by (rule appendCanonical_canon_aux(1))

end
