(* ===== verification/Canonical_Roundtrip.thy ===== *)
theory Canonical_Roundtrip
  imports Canonical
begin

text \<open>
  The canonical serialization against the strict decoder: the decoder of \<open>json.go\<close> reads a rendered
  value back exactly, so canonical bytes determine the value up to the order of object members and
  two values have the same canonical bytes exactly when they are the same JSON value. Canonical text
  is valid UTF-8 and holds no character that a line-oriented reader splits on.
\<close>

section \<open>Reading back an escaped string\<close>

lemma hexDigitAt_mod [simp]: "hexDigitAt (n mod 16) = hex_digit n"
  by (simp add: hexDigitAt_def hex_digit_def)

lemma appendUnicodeEscape_Nil:
  "appendUnicodeEscape [] r = [CHR 0x5C, CHR ''u'', hex_digit (r div 4096), hex_digit (r div 256),
     hex_digit (r div 16), hex_digit r]"
  by (simp add: appendUnicodeEscape_def)

lemma base16_digits:
  fixes r :: nat
  assumes "r < 65536"
  shows "r div 4096 mod 16 * 4096 + r div 256 mod 16 * 256 + r div 16 mod 16 * 16 + r mod 16 = r"
proof -
  have "r div 4096 < 16" using assms by simp
  moreover have "r = r div 16 * 16 + r mod 16" "r div 16 = r div 256 * 16 + r div 16 mod 16"
    "r div 256 = r div 4096 * 16 + r div 256 mod 16"
    using div_mult_mod_eq [of r 16] div_mult_mod_eq [of "r div 16" 16] div_mult_mod_eq [of "r div 256" 16]
    by (simp_all add: div_mult2_eq [symmetric])
  moreover have "r div 4096 mod 16 = r div 4096"
    using assms by simp
  ultimately show ?thesis by linarith
qed

lemma hex4_hex_digits [codec]:
  "r < 65536 \<Longrightarrow> hex4 (hex_digit (r div 4096)) (hex_digit (r div 256)) (hex_digit (r div 16)) (hex_digit r) = Some r"
  using base16_digits [of r] by (simp add: hex4_def)

lemma hex_digit_hex [simp]: "hex_val (hex_digit n) \<noteq> None"
  by simp

lemma hex_digit_range [simp]: "32 \<le> bval (hex_digit n)" "bval (hex_digit n) < 128"
  using hex_digit_plain [of n] by linarith+

lemma hex_digit_not_quote [simp]: "hex_digit n \<noteq> CHR 0x22" "hex_digit n \<noteq> CHR 0x5C"
  using hex_digit_plain [of n] by auto

text \<open>What the string form does to one rune: a short escape, a \<open>\u\<close> escape or the rune itself.\<close>

definition short_escape :: "nat \<Rightarrow> char option" where
  "short_escape r =
    (if r = 34 then Some (CHR 0x22) else if r = 92 then Some (CHR 0x5C)
     else if r = 8 then Some (CHR ''b'') else if r = 12 then Some (CHR ''f'')
     else if r = 10 then Some (CHR ''n'') else if r = 13 then Some (CHR ''r'')
     else if r = 9 then Some (CHR ''t'') else None)"

lemma char_of_eq_CHR: "r < 128 \<Longrightarrow> char_of r = c \<longleftrightarrow> r = bval c"
  using bval_char_of [of r] by (auto dest: char_of_bval_eq)

lemma esc_rune_short: "short_escape r = Some e \<Longrightarrow> esc_rune r = [CHR 0x5C, e] \<and> r < 128"
  unfolding short_escape_def
  by (auto simp: esc_rune_def appendAscii_def char_of_eq_CHR split: if_split_asm)

lemma esc_rune_control: "short_escape r = None \<Longrightarrow> r < 32 \<Longrightarrow> esc_rune r = appendUnicodeEscape [] r"
  unfolding short_escape_def
  by (auto simp: esc_rune_def appendAscii_def char_of_eq_CHR split: if_split_asm)

lemma esc_rune_plain: "short_escape r = None \<Longrightarrow> 32 \<le> r \<Longrightarrow> r < 128 \<Longrightarrow> r \<noteq> 34 \<and> r \<noteq> 92 \<and> esc_rune r = [char_of r]"
  unfolding short_escape_def
  by (auto simp: esc_rune_def appendAscii_def char_of_eq_CHR split: if_split_asm)

lemma esc_rune_boundary:
  "line_boundary r \<Longrightarrow> short_escape r = None \<and> r < 65536 \<and> 128 \<le> r \<and> \<not> is_surrogate r"
  by (auto simp: line_boundary_def short_escape_def is_surrogate_def)

lemma esc_rune_cases:
  obtains e where "short_escape r = Some e" "esc_rune r = [CHR 0x5C, e]" "r < 128"
  | "short_escape r = None" "r < 65536" "\<not> is_surrogate r" "esc_rune r = appendUnicodeEscape [] r"
  | "32 \<le> r" "r < 128" "r \<noteq> 34" "r \<noteq> 92" "esc_rune r = [char_of r]"
  | "128 \<le> r" "\<not> line_boundary r" "esc_rune r = encode_rune r"
proof -
  consider e where "short_escape r = Some e" | "short_escape r = None" "r < 32"
    | "short_escape r = None" "32 \<le> r" "r < 128" | "128 \<le> r" "line_boundary r" | "128 \<le> r" "\<not> line_boundary r"
    by (cases "short_escape r") fastforce+
  then show ?thesis
  proof cases
    case (1 e)
    then show ?thesis using that(1) esc_rune_short by blast
  next
    case 2
    then show ?thesis using that(2) esc_rune_control by (simp add: is_surrogate_def)
  next
    case 3
    then show ?thesis using that(3) esc_rune_plain by blast
  next
    case 4
    then show ?thesis using that(2) esc_rune_boundary [OF 4(2)] by (simp add: esc_rune_def)
  next
    case 5
    then show ?thesis using that(4) by (simp add: esc_rune_def)
  qed
qed

lemma short_escape_value: "short_escape r = Some e \<Longrightarrow> \<exists>v. escape_value e = Some v \<and> bval v = r"
  by (auto simp: short_escape_def escape_value_def split: if_split_asm)

lemma short_escape_reads:
  assumes "short_escape r = Some e"
  shows "simple_escape e" "escape_value e = Some (char_of r)" "e \<noteq> CHR ''u''" "bval e < 128" "32 \<le> bval e"
proof -
  show "escape_value e = Some (char_of r)"
    using short_escape_value [OF assms] by auto
qed (use assms in \<open>auto simp: short_escape_def simple_escape_def split: if_split_asm\<close>)

lemma take_hex_4:
  "hex_val a \<noteq> None \<Longrightarrow> hex_val b \<noteq> None \<Longrightarrow> hex_val c \<noteq> None \<Longrightarrow> hex_val d \<noteq> None \<Longrightarrow>
   take_hex 4 (a # b # c # d # t) = Inr ([a, b, c, d], t)"
  by (simp add: eval_nat_numeral)

lemma prepend_Nil [simp]: "prepend [] x = x"
  by (cases "([] :: bytes, x)" rule: prepend.cases) auto

lemma prepend_prepend [simp]: "prepend p (prepend q x) = prepend (p @ q) x"
  by (cases "(q, x)" rule: prepend.cases) auto

lemma scan_string_high:
  "\<forall>b \<in> set bs. 128 \<le> bval b \<Longrightarrow> scan_string (bs @ t) = prepend bs (scan_string t)"
  by (induction bs) auto

lemma scan_string_esc_rune:
  assumes "scalar r"
  shows "scan_string (esc_rune r @ t) = prepend (esc_rune r) (scan_string t)"
proof (cases r rule: esc_rune_cases)
  case (1 e)
  then show ?thesis using short_escape_reads [OF 1(1)] by simp
next
  case 2
  then show ?thesis
    by (simp add: appendUnicodeEscape_Nil simple_escape_not_u take_hex_4)
next
  case 3
  then show ?thesis by (simp add: char_of_eq_CHR)
next
  case 4
  then show ?thesis using scan_string_high encode_rune_high by simp
qed

lemma unquote_esc_rune:
  assumes "scalar r"
  shows "unquote (esc_rune r @ t) = map_option ((@) (encode_rune r)) (unquote t)"
proof (cases r rule: esc_rune_cases)
  case (1 e)
  then show ?thesis using short_escape_reads [OF 1(1)] by (cases "unquote t") simp_all
next
  case 2
  then show ?thesis
    by (simp add: appendUnicodeEscape_Nil hex4_hex_digits Let_def)
next
  case 3
  then show ?thesis by (cases "unquote t") (simp_all add: char_of_eq_CHR rune_self_def)
next
  case 4
  obtain b u where e: "encode_rune r = b # u" by (cases "encode_rune r") auto
  then have b: "128 \<le> bval b"
    using 4 encode_rune_Cons_high [of r b u] by simp
  have "decode_rune (b # u @ t) = (r, Suc (length u))"
    using decode_encode [OF assms, of t] by (simp add: e)
  then show ?thesis
    using b 4(3) by (auto simp: e rune_self_def)
qed

lemma scan_string_escape [codec]:
  "utf8_valid s \<Longrightarrow> scan_string (escape s @ CHR 0x22 # t) = Inr (escape s, t)"
  by (induction rule: utf8_induct) (simp_all add: scan_string_esc_rune)

lemma unquote_escape [codec]: "utf8_valid s \<Longrightarrow> unquote (escape s) = Some s"
  by (induction rule: utf8_induct) (simp_all add: unquote_esc_rune)

lemma jval_wf_JObjectD: "jval_wf (JObject ms) \<Longrightarrow> (k, w) \<in> set ms \<Longrightarrow> utf8_valid k \<and> jval_wf w"
  by (auto simp: jval_wf_JObject keys_ok_def)

section \<open>The surrogate scan passes over an escaped string\<close>

lemma parse_hex_4: "hex4 a b c d = Some w \<Longrightarrow> parse_hex 0 [a, b, c, d] = Some w"
  by (auto simp: hex4_def split: option.splits)

lemma hexEscape_unicode:
  "r < 65536 \<Longrightarrow> hexEscape (appendUnicodeEscape [] r @ t) = Some r"
  using parse_hex_4 [OF hex4_hex_digits] by (simp add: hexEscape_def appendUnicodeEscape_Nil)

lemma surrogate_scan_high:
  "\<forall>b \<in> set bs. 128 \<le> bval b \<Longrightarrow> surrogate_scan True (bs @ t) = surrogate_scan True t"
  by (induction bs) auto

lemma surrogate_scan_esc_rune:
  assumes "scalar r"
  shows "surrogate_scan True (esc_rune r @ t) = surrogate_scan True t"
proof (cases r rule: esc_rune_cases)
  case (1 e)
  then show ?thesis using short_escape_reads(3) [OF 1(1)] by simp
next
  case 2
  then show ?thesis
    using hexEscape_unicode [of r t] by (simp add: appendUnicodeEscape_Nil)
next
  case 3
  then show ?thesis by (simp add: char_of_eq_CHR)
next
  case 4
  then show ?thesis using surrogate_scan_high encode_rune_high by simp
qed

lemma surrogate_scan_escape:
  "utf8_valid s \<Longrightarrow> surrogate_scan True (escape s @ t) = surrogate_scan True t"
  by (induction rule: utf8_induct) (simp_all add: surrogate_scan_esc_rune)

lemma surrogate_scan_qstring [simp]:
  "utf8_valid s \<Longrightarrow> surrogate_scan False (qstring s @ t) = surrogate_scan False t"
  by (simp add: qstring_def surrogate_scan_escape)

text \<open>Outside strings the scan only looks for an opening quote.\<close>

lemma surrogate_scan_plain [simp]:
  "c \<noteq> CHR 0x22 \<Longrightarrow> surrogate_scan False (c # t) = surrogate_scan False t"
  by simp

lemma surrogate_scan_plains:
  "CHR 0x22 \<notin> set cs \<Longrightarrow> surrogate_scan False (cs @ t) = surrogate_scan False t"
  by (induction cs) auto

lemma json_number_no_quote: "json_number n \<Longrightarrow> CHR 0x22 \<notin> set n"
  using json_number_chars num_char_ascii by (fastforce simp: list_all_iff)

lemma surrogate_scan_join:
  "(\<And>x t. x \<in> set xs \<Longrightarrow> surrogate_scan False (x @ t) = surrogate_scan False t) \<Longrightarrow>
   surrogate_scan False (join_items first xs @ t) = surrogate_scan False t"
  by (induction xs arbitrary: first) auto

lemma surrogate_scan_render [simp]:
  "jval_wf v \<Longrightarrow> surrogate_scan False (render v @ t) = surrogate_scan False t"
proof (induction v arbitrary: t)
  case (JArray vs)
  then have "surrogate_scan False (join_items True (map render vs) @ u) = surrogate_scan False u" for u
    by (intro surrogate_scan_join) (auto simp: list_all_iff)
  then show ?case by simp
next
  case (JObject ms)
  have "surrogate_scan False (x @ u) = surrogate_scan False u"
    if "x \<in> set (map (\<lambda>(k, v). qstring k @ CHR '':'' # render v) ms)" for x u
    using that JObject.IH jval_wf_JObjectD [OF JObject.prems] by fastforce
  then have "surrogate_scan False (join_items True (map (\<lambda>(k, v). qstring k @ CHR '':'' # render v) ms) @ u)
      = surrogate_scan False u" for u
    by (intro surrogate_scan_join)
  then show ?case by simp
qed (auto simp: surrogate_scan_plains json_number_no_quote)

section \<open>Canonical text is valid UTF-8 without line boundaries\<close>

definition line_break_rune :: "nat \<Rightarrow> bool" where
  "line_break_rune r \<longleftrightarrow> r = 10 \<or> r = 13 \<or> line_boundary r"

text \<open>A valid text none of whose runes a line-oriented consumer splits on.\<close>

definition one_line :: "bytes \<Rightarrow> bool" where
  "one_line s \<longleftrightarrow> utf8_valid s \<and> (\<forall>r \<in> set (runes s). \<not> line_break_rune r)"

lemma one_line_append: "one_line a \<Longrightarrow> one_line b \<Longrightarrow> one_line (a @ b)"
  by (auto simp: one_line_def)

lemma one_line_ascii: "list_all (\<lambda>c. 32 \<le> bval c \<and> bval c < 128) s \<Longrightarrow> one_line s"
  using ascii_valid [of s] by (auto simp: one_line_def list_all_iff line_break_rune_def line_boundary_def)

lemma one_line_Cons: "32 \<le> bval c \<Longrightarrow> bval c < 128 \<Longrightarrow> one_line s \<Longrightarrow> one_line (c # s)"
  using one_line_append [OF one_line_ascii [of "[c]"], of s] by simp

lemma one_line_Nil [simp]: "one_line []"
  by (simp add: one_line_def)

lemma one_line_esc_rune:
  assumes "scalar r"
  shows "one_line (esc_rune r)"
proof (cases r rule: esc_rune_cases)
  case (1 e)
  then show ?thesis using short_escape_reads(4,5) [OF 1(1)] by (simp add: one_line_ascii)
next
  case 2
  then show ?thesis
    by (simp add: appendUnicodeEscape_Nil one_line_ascii)
next
  case 3
  then show ?thesis by (simp add: one_line_ascii)
next
  case 4
  then show ?thesis
    using assms utf8_valid_encode [OF assms, of "[]"] runes_encode [OF assms, of "[]"]
    by (auto simp: one_line_def line_break_rune_def)
qed

lemma one_line_escape: "utf8_valid s \<Longrightarrow> one_line (escape s)"
  by (induction rule: utf8_induct) (simp_all add: one_line_append one_line_esc_rune)

lemma one_line_qstring: "utf8_valid s \<Longrightarrow> one_line (qstring s)"
  by (simp add: qstring_def one_line_Cons one_line_append one_line_escape)

lemma one_line_join: "(\<And>x. x \<in> set xs \<Longrightarrow> one_line x) \<Longrightarrow> one_line (join_items first xs)"
  by (induction xs arbitrary: first) (auto intro!: one_line_append one_line_Cons)

lemma one_line_number: "json_number n \<Longrightarrow> one_line n"
  using json_number_chars num_char_ascii by (intro one_line_ascii) (fastforce simp: list_all_iff)

lemma one_line_render: "jval_wf v \<Longrightarrow> one_line (render v)"
proof (induction v)
  case (JArray vs)
  then show ?case
    by (auto simp: list_all_iff intro!: one_line_Cons one_line_append one_line_join)
next
  case (JObject ms)
  have "one_line x" if "x \<in> set (map (\<lambda>(k, v). qstring k @ CHR '':'' # render v) ms)" for x
    using that JObject.IH jval_wf_JObjectD [OF JObject.prems]
    by (fastforce intro!: one_line_append one_line_Cons one_line_qstring)
  then show ?case by (auto intro!: one_line_Cons one_line_append one_line_join)
qed (auto simp: one_line_ascii one_line_number one_line_qstring)

section \<open>The decoder reads a rendered value back\<close>

text \<open>What may follow an element: nothing, a separator or a closing bracket.\<close>

definition elem_stop :: "bytes \<Rightarrow> bool" where
  "elem_stop r \<longleftrightarrow> r = [] \<or> hd r = CHR '','' \<or> hd r = CHR '']'' \<or> hd r = CHR ''}''"

lemma elem_stop_num: "elem_stop r \<Longrightarrow> num_stop r"
  by (cases r) (auto simp: elem_stop_def is_digit_def)

lemma skip_space_Cons [simp]: "\<not> is_space c \<Longrightarrow> skip_space (c # t) = c # t"
  by (simp add: skip_space_def)

lemma is_space_bval: "is_space c \<Longrightarrow> bval c \<le> 32"
  by (auto simp: is_space_def)

lemma read_scalar_qstring: "utf8_valid s \<Longrightarrow> read_scalar (qstring s @ r) = Inr (TokString s, r)"
  by (simp add: qstring_def read_scalar_def scan_string_escape unquote_escape)

lemma num_head: "json_number n \<Longrightarrow> \<exists>c t. n = c # t \<and> (c = CHR ''-'' \<or> is_digit c)"
  using json_number_head [of n] by (cases n) auto

lemma read_scalar_number: "json_number n \<Longrightarrow> num_stop r \<Longrightarrow> read_scalar (n @ r) = Inr (TokNumber n, r)"
  using num_head [of n] json_number_scan [of n r]
  by (auto simp: read_scalar_def is_digit_def)

lemma read_scalar_literals:
  "read_scalar (''true'' @ r) = Inr (TokBool True, r)"
  "read_scalar (''false'' @ r) = Inr (TokBool False, r)"
  "read_scalar (''null'' @ r) = Inr (TokNull, r)"
  by (simp_all add: read_scalar_def)

text \<open>A token that starts a scalar, in a state that admits a value.\<close>

definition scalar_start :: "char \<Rightarrow> bool" where
  "scalar_start c \<longleftrightarrow> c = CHR 0x22 \<or> c = CHR ''t'' \<or> c = CHR ''f'' \<or> c = CHR ''n'' \<or> c = CHR ''-'' \<or> is_digit c"

lemma token_scalar:
  assumes "d_rest d = c # t" "scalar_start c" "value_allowed (d_state d)" "d_state d \<noteq> ObjectStart"
  shows "token d = scalar_token (c # t) (value_end (d_state d)) d"
proof -
  have c: "\<not> is_space c" "c \<noteq> CHR ''[''" "c \<noteq> CHR '']''" "c \<noteq> CHR ''{''" "c \<noteq> CHR ''}''" "c \<noteq> CHR '':''" "c \<noteq> CHR '',''"
    using assms(2) by (auto simp: scalar_start_def is_space_def is_digit_def)
  have "d_state d \<noteq> ObjectKey"
    using assms(3) by auto
  with c show ?thesis
    using assms(1,3,4) unfolding token.simps [of d] by simp
qed

lemma decode_scalar:
  assumes "d_rest d = s @ r" "s = c # t" "scalar_start c" "value_allowed (d_state d)"
    and "read_scalar (s @ r) = Inr (tok, r)" "\<forall>c. tok \<noteq> Delim c"
  shows "decode_value d depth = Inr (token_value tok, d\<lparr>d_rest := r, d_state := value_end (d_state d)\<rparr>)"
proof -
  have "token d = Inr (tok, d\<lparr>d_rest := r, d_state := value_end (d_state d)\<rparr>)"
    using token_scalar [of d c "t @ r"] assms by (auto simp: scalar_token_def)
  then show ?thesis
    using assms(6) by (cases tok) (auto simp: decode_value.simps [of d])
qed

definition scalar_value :: "jval \<Rightarrow> bool" where
  "scalar_value v \<longleftrightarrow> v \<noteq> JArray [] \<and> (\<forall>vs. v \<noteq> JArray vs) \<and> (\<forall>ms. v \<noteq> JObject ms)"

lemma read_scalar_render:
  assumes "jval_wf v" "scalar_value v" "num_stop r"
  obtains tok c t where "read_scalar (render v @ r) = Inr (tok, r)" "token_value tok = v" "\<forall>c. tok \<noteq> Delim c"
    "render v = c # t" "scalar_start c"
proof (cases v)
  case JNull
  then show ?thesis using that [of TokNull] read_scalar_literals(3) [of r] by (simp add: scalar_start_def)
next
  case (JBool b)
  then show ?thesis
    using that [of "TokBool b"] read_scalar_literals(1,2) [of r] by (cases b) (simp_all add: scalar_start_def)
next
  case (JNumber n)
  then show ?thesis
    using that [of "TokNumber n"] read_scalar_number [of n r] num_head [of n] assms
    by (auto simp: scalar_start_def)
next
  case (JString s)
  then show ?thesis
    using that [of "TokString s"] read_scalar_qstring [of s r] assms
    by (auto simp: scalar_start_def qstring_def)
qed (use assms in \<open>auto simp: scalar_value_def\<close>)

text \<open>The statement for one value, at a depth the decoder is still willing to look at.\<close>

definition reads_back :: "jval \<Rightarrow> bool" where
  "reads_back v \<longleftrightarrow> (\<forall>d depth r. value_allowed (d_state d) \<and> d_rest d = render v @ r \<and> elem_stop r
     \<and> depth \<le> Suc MaxDepth \<longrightarrow>
       decode_value d depth =
         (if depth + jdepth v \<le> Suc MaxDepth
          then Inr (v, d\<lparr>d_rest := r, d_state := value_end (d_state d)\<rparr>) else Inl TooDeep))"

lemma reads_backD:
  "reads_back v \<Longrightarrow> value_allowed (d_state d) \<Longrightarrow> d_rest d = render v @ r \<Longrightarrow> elem_stop r \<Longrightarrow>
   depth \<le> Suc MaxDepth \<Longrightarrow> decode_value d depth =
     (if depth + jdepth v \<le> Suc MaxDepth
      then Inr (v, d\<lparr>d_rest := r, d_state := value_end (d_state d)\<rparr>) else Inl TooDeep)"
  by (simp add: reads_back_def)

lemma reads_back_scalar:
  assumes "jval_wf v" "scalar_value v"
  shows "reads_back v"
proof -
  have z: "jdepth v = 0" using assms(2) by (cases v) (auto simp: scalar_value_def)
  have "decode_value d depth = Inr (v, d\<lparr>d_rest := r, d_state := value_end (d_state d)\<rparr>)"
    if "value_allowed (d_state d)" "d_rest d = render v @ r" "elem_stop r" for d r depth
    using read_scalar_render [OF assms elem_stop_num [OF that(3)]] decode_scalar [of d "render v" r] that(1,2)
    by metis
  then show ?thesis by (simp add: reads_back_def z)
qed

section \<open>Containers\<close>

text \<open>A separating comma only moves the decoder to the state of a next element.\<close>

lemma token_comma:
  "d_rest d = CHR '','' # t \<Longrightarrow> d_state d = ArrayComma \<Longrightarrow> token d = token (d\<lparr>d_rest := t, d_state := ArrayValue\<rparr>)"
  "d_rest d = CHR '','' # t \<Longrightarrow> d_state d = ObjectComma \<Longrightarrow> token d = token (d\<lparr>d_rest := t, d_state := ObjectKey\<rparr>)"
  "d_rest d = CHR '':'' # t \<Longrightarrow> d_state d = ObjectColon \<Longrightarrow> token d = token (d\<lparr>d_rest := t, d_state := ObjectValue\<rparr>)"
  by (subst token.simps, simp add: is_space_def)+

lemma decode_value_token: "token d = token d' \<Longrightarrow> decode_value d depth = decode_value d' depth"
  by (simp add: decode_value.simps)

lemma render_start:
  assumes "jval_wf v"
  obtains c t where "render v = c # t" "\<not> is_space c" "c \<noteq> CHR '']''" "c \<noteq> CHR ''}''"
proof (cases "scalar_value v")
  case True
  obtain c t where "render v = c # t" "scalar_start c"
    by (rule read_scalar_render [OF assms True, of "[]"]) simp_all
  moreover from this(2) have "\<not> is_space c" "c \<noteq> CHR '']''" "c \<noteq> CHR ''}''"
    by (auto simp: scalar_start_def is_space_def is_digit_def)
  ultimately show ?thesis using that by blast
next
  case False
  then show ?thesis
    using that by (auto simp: scalar_value_def is_space_def)
qed

lemma token_close_array:
  "d_rest d = CHR '']'' # r \<Longrightarrow> d_state d = ArrayStart \<or> d_state d = ArrayComma \<Longrightarrow> d_stack d = st # sts \<Longrightarrow>
   token d = Inr (Delim CHR '']'', \<lparr>d_rest = r, d_state = value_end st, d_stack = sts\<rparr>)"
  by (subst token.simps) (auto simp: is_space_def close_delim_def)

lemma token_close_object:
  "d_rest d = CHR ''}'' # r \<Longrightarrow> d_state d = ObjectStart \<or> d_state d = ObjectComma \<Longrightarrow> d_stack d = st # sts \<Longrightarrow>
   token d = Inr (Delim CHR ''}'', \<lparr>d_rest = r, d_state = value_end st, d_stack = sts\<rparr>)"
  by (subst token.simps) (auto simp: is_space_def close_delim_def)

lemma elem_stop_join: "elem_stop (join_items False xs @ CHR '']'' # r)" "elem_stop (join_items False xs @ CHR ''}'' # r)"
  by (cases xs; simp add: elem_stop_def)+

lemma dec_more_Cons: "d_rest d = c # t \<Longrightarrow> \<not> is_space c \<Longrightarrow> dec_more d \<longleftrightarrow> c \<noteq> CHR '']'' \<and> c \<noteq> CHR ''}''"
  by (simp add: dec_more_def)

lemma decode_array_render:
  assumes "\<forall>v \<in> set vs. reads_back v \<and> jval_wf v"
    and "d_rest d = join_items first (map render vs) @ CHR '']'' # r"
    and "d_state d = (if first then ArrayStart else ArrayComma)" "d_stack d = st # sts"
    and "depth \<le> MaxDepth"
  shows "decode_array d depth arr =
    (if depth + max_depth vs \<le> MaxDepth
     then Inr (arr @ vs, \<lparr>d_rest = r, d_state = value_end st, d_stack = sts\<rparr>) else Inl TooDeep)"
  using assms
proof (induction vs arbitrary: d first arr)
  case Nil
  then show ?case
    by (simp add: decode_array.simps [of d] dec_more_Cons is_space_def token_close_array split: if_splits)
next
  case (Cons v vs)
  let ?tail = "join_items False (map render vs) @ CHR '']'' # r"
  let ?d1 = "d\<lparr>d_rest := render v @ ?tail, d_state := (if first then ArrayStart else ArrayValue)\<rparr>"
  obtain c t where c: "render v = c # t" "\<not> is_space c" "c \<noteq> CHR '']''" "c \<noteq> CHR ''}''"
    using Cons.prems(1) by (auto elim: render_start)
  have more: "dec_more d"
    using Cons.prems(2) c by (cases first) (simp_all add: dec_more_Cons is_space_def)
  have d1: "decode_value d (depth + 1) = decode_value ?d1 (depth + 1)"
  proof (cases first)
    case True
    then have "?d1 = d" using Cons.prems(2,3) by simp
    then show ?thesis by simp
  next
    case False
    then show ?thesis
      using Cons.prems(2,3) token_comma(1) [of d "render v @ ?tail"] by (intro decode_value_token) simp
  qed
  have dv: "decode_value ?d1 (depth + 1) =
    (if depth + jdepth v \<le> MaxDepth
     then Inr (v, d\<lparr>d_rest := ?tail, d_state := ArrayComma\<rparr>) else Inl TooDeep)"
    using reads_backD [of v ?d1 ?tail "depth + 1"] Cons.prems(1,5) elem_stop_join(1) by auto
  show ?case
    using Cons.IH [of "d\<lparr>d_rest := ?tail, d_state := ArrayComma\<rparr>" False "arr @ [v]"] Cons.prems more d1 dv
    by (auto simp: decode_array.simps [of d])
qed


lemma token_key:
  assumes "d_rest d = qstring k @ t" "d_state d = ObjectStart \<or> d_state d = ObjectKey" "utf8_valid k"
  shows "token d = Inr (TokString k, d\<lparr>d_rest := t, d_state := ObjectColon\<rparr>)"
proof -
  have "d_rest d = CHR 0x22 # escape k @ CHR 0x22 # t"
    using assms(1) by (simp add: qstring_def)
  moreover have "read_scalar (CHR 0x22 # escape k @ CHR 0x22 # t) = Inr (TokString k, t)"
    using read_scalar_qstring [OF assms(3), of t] by (simp add: qstring_def)
  ultimately show ?thesis
    using assms(2) unfolding token.simps [of d] by (auto simp: is_space_def scalar_token_def)
qed

abbreviation member_items :: "(bytes \<times> jval) list \<Rightarrow> bytes list" where
  "member_items ms \<equiv> map (\<lambda>(k, v). qstring k @ CHR '':'' # render v) ms"

lemma decode_object_render:
  assumes "\<forall>p \<in> set ms. reads_back (snd p) \<and> jval_wf (snd p) \<and> utf8_valid (fst p)"
    and "distinct (map fst (obj @ ms))"
    and "d_rest d = join_items first (member_items ms) @ CHR ''}'' # r"
    and "d_state d = (if first then ObjectStart else ObjectComma)" "d_stack d = st # sts"
    and "depth \<le> MaxDepth"
  shows "decode_object d depth obj =
    (if depth + max_depth (map snd ms) \<le> MaxDepth
     then Inr (obj @ ms, \<lparr>d_rest = r, d_state = value_end st, d_stack = sts\<rparr>) else Inl TooDeep)"
  using assms
proof (induction ms arbitrary: d first obj)
  case Nil
  then show ?case
    by (simp add: decode_object.simps [of d] dec_more_Cons is_space_def token_close_object split: if_splits)
next
  case (Cons p ms)
  obtain k v where p: "p = (k, v)" by (cases p)
  let ?tail = "join_items False (member_items ms) @ CHR ''}'' # r"
  let ?d1 = "d\<lparr>d_rest := qstring k @ CHR '':'' # render v @ ?tail,
      d_state := (if first then ObjectStart else ObjectKey)\<rparr>"
  let ?d2 = "d\<lparr>d_rest := CHR '':'' # render v @ ?tail, d_state := ObjectColon\<rparr>"
  let ?d3 = "d\<lparr>d_rest := render v @ ?tail, d_state := ObjectValue\<rparr>"
  have rest: "d_rest d = (if first then [] else '','') @ qstring k @ CHR '':'' # render v @ ?tail"
    using Cons.prems(3) by (simp add: p)
  have more: "dec_more d"
    using rest by (cases first) (simp_all add: dec_more_Cons qstring_def is_space_def)
  have "token d = token ?d1"
  proof (cases first)
    case True
    then have "?d1 = d" using rest Cons.prems(4) by simp
    then show ?thesis by simp
  next
    case False
    then show ?thesis using rest Cons.prems(4) token_comma(2) [of d] by simp
  qed
  then have tk: "token d = Inr (TokString k, ?d2)"
    using token_key [of ?d1 k] Cons.prems(1) by (simp add: p)
  have "decode_value ?d2 (depth + 1) = decode_value ?d3 (depth + 1)"
    using token_comma(3) [of ?d2] by (intro decode_value_token) simp
  then have dv: "decode_value ?d2 (depth + 1) =
    (if depth + jdepth v \<le> MaxDepth
     then Inr (v, d\<lparr>d_rest := ?tail, d_state := ObjectComma\<rparr>) else Inl TooDeep)"
    using reads_backD [of v ?d3 ?tail "depth + 1"] Cons.prems(1,6) elem_stop_join(2) by (auto simp: p)
  have new: "map_of obj k = None"
    using Cons.prems(2) by (auto simp: p map_of_eq_None_iff)
  show ?case
    using Cons.IH [of "obj @ [(k, v)]" "d\<lparr>d_rest := ?tail, d_state := ObjectComma\<rparr>" False] Cons.prems more tk dv new
    by (auto simp: decode_object.simps [of d] p)
qed

lemma token_open:
  assumes "d_rest d = c # t" "value_allowed (d_state d)"
  shows "c = CHR ''['' \<Longrightarrow> token d = Inr (Delim c, \<lparr>d_rest = t, d_state = ArrayStart, d_stack = d_state d # d_stack d\<rparr>)"
    and "c = CHR ''{'' \<Longrightarrow> token d = Inr (Delim c, \<lparr>d_rest = t, d_state = ObjectStart, d_stack = d_state d # d_stack d\<rparr>)"
  using assms unfolding token.simps [of d] by (simp_all add: is_space_def open_delim_def)

lemma reads_back_array:
  assumes "\<forall>v \<in> set vs. reads_back v \<and> jval_wf v"
  shows "reads_back (JArray vs)"
  unfolding reads_back_def
proof (intro allI impI, elim conjE)
  fix d :: decoder and depth r
  assume a: "value_allowed (d_state d)" "d_rest d = render (JArray vs) @ r" "depth \<le> Suc MaxDepth"
  let ?d1 = "\<lparr>d_rest = join_items True (map render vs) @ CHR '']'' # r, d_state = ArrayStart,
      d_stack = d_state d # d_stack d\<rparr>"
  have "token d = Inr (Delim CHR ''['', ?d1)"
    using token_open(1) [of d] a by simp
  moreover have "decode_array ?d1 depth [] =
    (if depth + max_depth vs \<le> MaxDepth
     then Inr (vs, \<lparr>d_rest = r, d_state = value_end (d_state d), d_stack = d_stack d\<rparr>) else Inl TooDeep)"
    if "depth \<le> MaxDepth"
    using decode_array_render [OF assms, of ?d1 True] that by simp
  ultimately show "decode_value d depth =
    (if depth + jdepth (JArray vs) \<le> Suc MaxDepth
     then Inr (JArray vs, d\<lparr>d_rest := r, d_state := value_end (d_state d)\<rparr>) else Inl TooDeep)"
    by (auto simp: decode_value.simps [of d])
qed

lemma reads_back_object:
  assumes "\<forall>p \<in> set ms. reads_back (snd p) \<and> jval_wf (snd p) \<and> utf8_valid (fst p)" "distinct (map fst ms)"
  shows "reads_back (JObject ms)"
  unfolding reads_back_def
proof (intro allI impI, elim conjE)
  fix d :: decoder and depth r
  assume a: "value_allowed (d_state d)" "d_rest d = render (JObject ms) @ r" "depth \<le> Suc MaxDepth"
  let ?d1 = "\<lparr>d_rest = join_items True (member_items ms) @ CHR ''}'' # r, d_state = ObjectStart,
      d_stack = d_state d # d_stack d\<rparr>"
  have "token d = Inr (Delim CHR ''{'', ?d1)"
    using token_open(2) [of d] a by simp
  moreover have "decode_object ?d1 depth [] =
    (if depth + max_depth (map snd ms) \<le> MaxDepth
     then Inr (ms, \<lparr>d_rest = r, d_state = value_end (d_state d), d_stack = d_stack d\<rparr>) else Inl TooDeep)"
    if "depth \<le> MaxDepth"
    using decode_object_render [OF assms(1), of "[]" ?d1 True] assms(2) that by simp
  ultimately show "decode_value d depth =
    (if depth + jdepth (JObject ms) \<le> Suc MaxDepth
     then Inr (JObject ms, d\<lparr>d_rest := r, d_state := value_end (d_state d)\<rparr>) else Inl TooDeep)"
    by (auto simp: decode_value.simps [of d])
qed

lemma reads_back: "jval_wf v \<Longrightarrow> reads_back v"
proof (induction v)
  case (JArray vs)
  then show ?case by (intro reads_back_array) (auto simp: list_all_iff)
next
  case (JObject ms)
  have "reads_back (snd p) \<and> jval_wf (snd p) \<and> utf8_valid (fst p)" if "p \<in> set ms" for p
  proof -
    obtain k w where "p = (k, w)" by (cases p)
    then show ?thesis
      using that JObject.IH [of "(k, w)" w] jval_wf_JObjectD [OF JObject.prems, of k w] by simp
  qed
  then show ?case
    using JObject.prems by (intro reads_back_object) (auto simp: jval_wf_JObject keys_ok_def)
qed (auto intro!: reads_back_scalar simp: scalar_value_def)

lemma decodeStrict_render:
  assumes "jval_wf v"
  shows "decodeStrict (render v) = (if jdepth v \<le> MaxDepth then Inr v else Inl TooDeep)"
proof -
  have "rejectEscapedSurrogates (render v) = None"
    using surrogate_scan_render [OF assms, of "[]"] by (simp add: rejectEscapedSurrogates_def)
  moreover have "utf8_valid (render v)"
    using one_line_render [OF assms] by (simp add: one_line_def)
  moreover have "decode_value (new_decoder (render v)) 1 =
    (if jdepth v \<le> MaxDepth then Inr (v, new_decoder []) else Inl TooDeep)"
    using reads_backD [OF reads_back [OF assms], of "new_decoder (render v)" "[]" 1]
    by (simp add: new_decoder_def elem_stop_def MaxDepth_def)
  moreover have "token (new_decoder []) = Inl EOF"
    by (simp add: token.simps new_decoder_def skip_space_def)
  ultimately show ?thesis
    by (simp add: decodeStrict_def)
qed

section \<open>Normal forms and equality of JSON values\<close>

text \<open>
  The reference notion of equal content: the same scalar, arrays equal elementwise, objects with the
  same key set and equal values under every key. It does not mention any order of members.
\<close>

lemma size_snd_mem [termination_simp]:
  "(k, v) \<in> set ms \<Longrightarrow> size v < Suc (size_list (size_prod (\<lambda>_. 0) size) ms)"
  by (induction ms) auto

fun jeq :: "jval \<Rightarrow> jval \<Rightarrow> bool" where
  "jeq (JArray vs) (JArray ws) = list_all2 jeq vs ws"
| "jeq (JObject ms) (JObject ns) =
     (fst ` set ms = fst ` set ns \<and>
      (\<forall>(k, v) \<in> set ms. case map_of ns k of None \<Rightarrow> False | Some w \<Rightarrow> jeq v w))"
| "jeq v w = (v = w)"

lemma normal_form_members:
  "set (sort_members (map (\<lambda>(k, v). (k, normal_form v)) ms)) = (\<lambda>(k, v). (k, normal_form v)) ` set ms"
  by simp

lemma keys_ok_map: "keys_ok (map (\<lambda>(k, v). (k, f v)) ms) = keys_ok ms"
  by (auto simp: keys_ok_def comp_def case_prod_beta)

lemma jval_wf_normal_form: "jval_wf v \<Longrightarrow> jval_wf (normal_form v)"
proof (induction v)
  case (JObject ms)
  have "jval_wf (normal_form w)" if "(k, w) \<in> set ms" for k w
    using JObject.IH [of "(k, w)" w] that jval_wf_JObjectD [OF JObject.prems that] by simp
  then show ?case
    using JObject.prems by (auto simp: jval_wf_JObject keys_ok_map)
qed (auto simp: list_all_iff)

lemma max_depth_set: "set vs = set ws \<Longrightarrow> max_depth vs = max_depth ws"
  by (metis antisym max_depth_le order_refl)

lemma max_depth_map: "(\<And>v. v \<in> set vs \<Longrightarrow> jdepth (f v) = jdepth v) \<Longrightarrow> max_depth (map f vs) = max_depth vs"
  by (induction vs) auto

lemma jdepth_normal_form [simp]: "jdepth (normal_form v) = jdepth v"
proof (induction v)
  case (JArray vs)
  then show ?case by (simp add: max_depth_map)
next
  case (JObject ms)
  have "max_depth (map snd (sort_members (map (\<lambda>(k, v). (k, normal_form v)) ms)))
      = max_depth (map normal_form (map snd ms))"
    by (rule max_depth_set) (force simp: image_iff)
  also have "\<dots> = max_depth (map snd ms)"
    using JObject by (intro max_depth_map) auto
  finally show ?case by simp
qed auto

lemma map_of_keys_ok: "keys_ok ms \<Longrightarrow> (k, v) \<in> set ms \<Longrightarrow> map_of ms k = Some v"
  by (simp add: keys_ok_def)

lemma normal_form_eq_objects:
  assumes "jval_wf (JObject ms)" "jval_wf (JObject ns)"
  shows "normal_form (JObject ms) = normal_form (JObject ns) \<longleftrightarrow>
    fst ` set ms = fst ` set ns \<and>
    (\<forall>(k, v) \<in> set ms. case map_of ns k of None \<Rightarrow> False | Some w \<Rightarrow> normal_form v = normal_form w)"
    (is "?l \<longleftrightarrow> ?r")
proof -
  let ?f = "\<lambda>(k, v). (k, normal_form v)"
  have ok: "keys_ok ms" "keys_ok ns" using assms by (auto simp: jval_wf_JObject)
  have "?l \<longleftrightarrow> ?f ` set ms = ?f ` set ns"
    using sort_members_cong [of "map ?f ms" "map ?f ns"] ok
      normal_form_members [of ms] normal_form_members [of ns] by (auto simp only: keys_ok_map set_map normal_form.simps jval.inject)
  also have "\<dots> \<longleftrightarrow> ?r"
  proof
    assume eq: "?f ` set ms = ?f ` set ns"
    have "fst ` ?f ` set ms = fst ` ?f ` set ns" by (simp only: eq)
    then have "fst ` set ms = fst ` set ns" by (simp add: image_image case_prod_beta)
    moreover have "case map_of ns k of None \<Rightarrow> False | Some w \<Rightarrow> normal_form v = normal_form w" if "(k, v) \<in> set ms" for k v
    proof -
      have "(k, normal_form v) \<in> ?f ` set ns" using that by (auto simp: eq [symmetric])
      then obtain w where "(k, w) \<in> set ns" "normal_form v = normal_form w" by auto
      then show ?thesis using map_of_keys_ok [OF ok(2)] by simp
    qed
    ultimately show ?r by blast
  next
    assume r: ?r
    have "?f ` set ms \<subseteq> ?f ` set ns"
    proof clarify
      fix k v assume "(k, v) \<in> set ms"
      then obtain w where "map_of ns k = Some w" "normal_form v = normal_form w"
        using r by (fastforce split: option.split_asm)
      then show "(k, normal_form v) \<in> ?f ` set ns"
        by (auto dest!: map_of_SomeD intro: rev_image_eqI)
    qed
    moreover have "?f ` set ns \<subseteq> ?f ` set ms"
    proof clarify
      fix k w assume w: "(k, w) \<in> set ns"
      then obtain v where v: "(k, v) \<in> set ms" using r by force
      then have "normal_form v = normal_form w"
        using r map_of_keys_ok [OF ok(2) w] by fastforce
      then show "(k, normal_form w) \<in> ?f ` set ms"
        using v by force
    qed
    ultimately show "?f ` set ms = ?f ` set ns" by blast
  qed
  finally show ?thesis .
qed

lemma normal_form_scalar: "(\<forall>vs. v \<noteq> JArray vs) \<Longrightarrow> (\<forall>ms. v \<noteq> JObject ms) \<Longrightarrow> (v = normal_form w) = (v = w)"
  "(\<forall>vs. v \<noteq> JArray vs) \<Longrightarrow> (\<forall>ms. v \<noteq> JObject ms) \<Longrightarrow> (normal_form w = v) = (w = v)"
  by (cases w; auto)+

lemma normal_form_eq_iff: "jval_wf v \<Longrightarrow> jval_wf w \<Longrightarrow> normal_form v = normal_form w \<longleftrightarrow> jeq v w"
proof (induction v w rule: jeq.induct)
  case (1 vs ws)
  then have "map normal_form vs = map normal_form ws \<longleftrightarrow> list_all2 (\<lambda>v w. normal_form v = normal_form w) vs ws"
    by (simp add: list_eq_iff_nth_eq list_all2_conv_all_nth)
      (metis length_map nth_map)
  moreover have "list_all2 (\<lambda>v w. normal_form v = normal_form w) vs ws = list_all2 jeq vs ws"
    using 1 by (intro list.rel_cong) (auto simp: list_all_iff)
  ultimately show ?case by simp
next
  case (2 ms ns)
  have "(case map_of ns k of None \<Rightarrow> False | Some w \<Rightarrow> normal_form v = normal_form w)
      = (case map_of ns k of None \<Rightarrow> False | Some w \<Rightarrow> jeq v w)" if "(k, v) \<in> set ms" for k v
    using 2(1) [OF that refl] jval_wf_JObjectD [OF 2(2) that] jval_wf_JObjectD [OF 2(3) map_of_SomeD]
    by (simp split: option.split)
  then show ?case
    by (simp only: normal_form_eq_objects [OF 2(2,3)] jeq.simps) (intro conj_cong ball_cong; auto)
qed (simp_all add: normal_form_scalar)

section \<open>The codec contract\<close>

text \<open>
  What duplicate detection relies on, stated as an interface: decoding what was encoded gives the
  value back up to a normal form that encoding does not see, and everything decoded may be encoded.
  Then the encoded bytes decide whether two decoded texts denote the same value.
\<close>

locale canonical_codec =
  fixes enc :: "'v \<Rightarrow> bytes" and dec :: "bytes \<Rightarrow> 'e + 'v" and ok :: "'v \<Rightarrow> bool" and nf :: "'v \<Rightarrow> 'v"
  assumes dec_enc [codec]: "ok v \<Longrightarrow> dec (enc v) = Inr (nf v)"
    and enc_nf: "ok v \<Longrightarrow> enc (nf v) = enc v"
    and dec_ok: "dec x = Inr v \<Longrightarrow> ok v"
begin

lemma enc_eq_iff: "ok v \<Longrightarrow> ok w \<Longrightarrow> enc v = enc w \<longleftrightarrow> nf v = nf w"
  by (metis dec_enc enc_nf sum.inject(2))

lemma decoded_eq_iff: "dec x = Inr v \<Longrightarrow> dec y = Inr w \<Longrightarrow> enc v = enc w \<longleftrightarrow> nf v = nf w"
  by (rule enc_eq_iff) (rule dec_ok; assumption)+

lemma reencode: "dec x = Inr v \<Longrightarrow> \<exists>w. dec (enc v) = Inr w \<and> enc w = enc v"
  by (metis dec_enc dec_ok enc_nf)

end

lemma sort_members_id: "keys_ok ms \<Longrightarrow> sorted_wrt key_less ms \<Longrightarrow> sort_members ms = ms"
  by (rule sorted_members_unique) (simp_all add: sort_members_sorted)

lemma normal_form_idem: "jval_wf v \<Longrightarrow> normal_form (normal_form v) = normal_form v"
proof (induction v)
  case (JObject ms)
  let ?ns = "sort_members (map (\<lambda>(k, v). (k, normal_form v)) ms)"
  have ok: "keys_ok ?ns"
    using JObject.prems by (simp add: jval_wf_JObject keys_ok_map)
  have "map (\<lambda>(k, v). (k, normal_form v)) ?ns = map (\<lambda>p. p) ?ns"
  proof (rule map_cong [OF refl], clarsimp)
    fix k w assume "(k, w) \<in> set ms"
    then show "normal_form (normal_form w) = normal_form w"
      using JObject.IH [of "(k, w)" w] jval_wf_JObjectD [OF JObject.prems] by simp
  qed
  then show ?case
    using ok sort_members_sorted [of "map (\<lambda>(k, v). (k, normal_form v)) ms"] JObject.prems
    by (simp add: sort_members_id jval_wf_JObject keys_ok_map)
qed (auto simp: list_all_iff)

definition value_ok :: "jval \<Rightarrow> bool" where
  "value_ok v \<longleftrightarrow> jval_wf v \<and> jdepth v \<le> MaxDepth"

lemma decodeStrict_ok: "decodeStrict x = Inr v \<Longrightarrow> value_ok v"
  by (simp add: value_ok_def decodeStrict_accepts)

lemma decodeStrict_canon: "value_ok v \<Longrightarrow> decodeStrict (canon v) = Inr (normal_form v)"
  by (simp add: value_ok_def canon_def decodeStrict_render jval_wf_normal_form)

lemma canon_normal_form: "value_ok v \<Longrightarrow> canon (normal_form v) = canon v"
  by (simp add: value_ok_def canon_def normal_form_idem)

interpretation canonical: canonical_codec canon decodeStrict value_ok normal_form
  by unfold_locales (fact decodeStrict_canon canon_normal_form decodeStrict_ok)+

lemma appendCanonical_ok: "value_ok v \<Longrightarrow> appendCanonical dst v = Inr (dst @ canon v)"
  by (simp add: value_ok_def appendCanonical_canon)

lemma jeq_normal_form: "jval_wf v \<Longrightarrow> jeq (normal_form v) v"
  by (metis jval_wf_normal_form normal_form_eq_iff normal_form_idem)

lemma one_line_canon: "value_ok v \<Longrightarrow> one_line (canon v)"
  by (simp add: value_ok_def canon_def one_line_render jval_wf_normal_form)

lemma one_line_no_break:
  assumes "one_line s" "line_break_rune r" "scalar r"
  shows "\<not> sublist (encode_rune r) s"
  using runes_sublist [OF assms(3), of s] assms by (auto simp: one_line_def)

lemma one_line_no_LF: "one_line s \<Longrightarrow> CHR 0x0A \<notin> set s"
  using one_line_no_break [of s 10] split_list [of "CHR 0x0A" s] char_of_bval_eq [of "CHR 0x0A" 10]
  by (auto simp: line_break_rune_def scalar_def sublist_def)

lemma canon_nonempty: "value_ok v \<Longrightarrow> canon v \<noteq> []"
  by (metis canon_def jval_wf_normal_form list.distinct(1) render_start value_ok_def)

section \<open>Properties of the canonical form\<close>

lemmas canon_eval = appendCanonical.simps appendCanonicalString_def appendAscii_def
  appendUnicodeEscape_def separator_def sortFunc_def cmp_compare_def rune_self_def

text \<open>A payload with an escape, a nested container and two members out of order.\<close>

definition sample_payload :: jval where
  "sample_payload = JObject [(''b'', JArray [JNumber ''1'', JNull]), (''a'', JString ''x\<newline>'')]"

lemma sample_payload_ok: "jval_wf sample_payload \<and> jdepth sample_payload \<le> MaxDepth"
  by (simp add: sample_payload_def jval_wf_JObject keys_ok_def json_number_def MaxDepth_def ascii_valid
      scan_number_def scan_unsigned_def scan_digits_def scan_fraction_def scan_exponent_def is_digit_def Let_def)

text \<open>
  C7. For every well-formed value of at most 64 levels the canonical serialization succeeds, the strict
  decoder accepts its output, and what it decodes is the same JSON value: the original with the
  members of every object in canonical order. Nothing (number lexemes, string contents, nesting)
  is lost.
\<close>

theorem canonical_roundtrip:
  assumes "jval_wf v" "jdepth v \<le> MaxDepth"
  shows "\<exists>buf. appendCanonical [] v = Inr buf \<and> decodeStrict buf = Inr (normal_form v) \<and> jeq (normal_form v) v"
proof -
  have "value_ok v" using assms by (simp add: value_ok_def)
  then show ?thesis
    using assms(1) by (simp add: appendCanonical_ok canonical.dec_enc jeq_normal_form)
qed

theorem canonical_roundtrip_witness:
  "\<exists>buf. appendCanonical [] sample_payload = Inr buf \<and> decodeStrict buf = Inr (normal_form sample_payload)"
  using canonical_roundtrip [of sample_payload] sample_payload_ok by blast

text \<open>
  C6. Two accepted JSON texts have the same canonical bytes exactly when they decode to the same JSON
  value, that is up to white space, string escapes and the order of object members, but with number
  lexemes compared exactly.
\<close>

theorem canonical_identity:
  assumes "decodeStrict a = Inr v" "decodeStrict b = Inr w"
  shows "appendCanonical [] v = appendCanonical [] w \<longleftrightarrow> jeq v w"
  using canonical.decoded_eq_iff [OF assms] decodeStrict_accepts(2) [OF assms(1)] decodeStrict_accepts(2) [OF assms(2)]
  by (simp add: appendCanonical_canon normal_form_eq_iff)

theorem canonical_identity_witness:
  "appendCanonical [] (JObject [(''a'', JNumber ''1''), (''b'', JNull)])
     = appendCanonical [] (JObject [(''b'', JNull), (''a'', JNumber ''1'')])"
proof -
  have "decodeStrict ''{\"a\":1,\"b\":null}'' = Inr (JObject [(''a'', JNumber ''1''), (''b'', JNull)])"
    "decodeStrict ''{\"b\":null,\"a\":1}'' = Inr (JObject [(''b'', JNull), (''a'', JNumber ''1'')])"
    by (simp_all add: json_eval)
  from canonical_identity [OF this] show ?thesis by (simp add: insert_commute)
qed

text \<open>
  Wherever the hash has no collision on the two canonical texts, \<open>CanonicalDigest\<close> of two decoded
  values agrees exactly when they are the same JSON value: a duplicate is recognised however its
  members were ordered and however it was escaped, and a changed payload is never taken for one.
\<close>

theorem CanonicalDigest_discriminates:
  assumes "decodeStrict a = Inr v" "decodeStrict b = Inr w"
    and "\<And>x y. sha256 x = sha256 y \<Longrightarrow> x \<in> {canon v, canon w} \<Longrightarrow> y \<in> {canon v, canon w} \<Longrightarrow> x = y"
  shows "CanonicalDigest sha256 v = CanonicalDigest sha256 w \<longleftrightarrow> jeq v w"
proof -
  have "CanonicalDigest sha256 v = CanonicalDigest sha256 w \<longleftrightarrow> sha256 (canon v) = sha256 (canon w)"
    using decodeStrict_ok [OF assms(1)] decodeStrict_ok [OF assms(2)]
    by (simp add: CanonicalDigest_def appendCanonical_ok)
  also have "\<dots> \<longleftrightarrow> canon v = canon w"
    using assms(3) [of "canon v" "canon w"] by auto
  also have "\<dots> \<longleftrightarrow> jeq v w"
    using canonical.decoded_eq_iff [OF assms(1,2)] decodeStrict_accepts(2) [OF assms(1)]
      decodeStrict_accepts(2) [OF assms(2)] by (simp add: normal_form_eq_iff)
  finally show ?thesis .
qed

text \<open>The hash in the witness is a function whose last byte is enough to tell the two texts apart.\<close>

theorem CanonicalDigest_discriminates_witness:
  "CanonicalDigest (\<lambda>x. take 5 x) (JArray [JNumber ''1'']) \<noteq> CanonicalDigest (\<lambda>x. take 5 x) (JArray [JNumber ''2''])"
proof -
  have "decodeStrict ''[1]'' = Inr (JArray [JNumber ''1''])" "decodeStrict ''[2]'' = Inr (JArray [JNumber ''2''])"
    by (simp_all add: json_eval)
  note d = this
  have "x = y" if "take 5 x = take 5 y" "x \<in> {canon (JArray [JNumber ''1'']), canon (JArray [JNumber ''2''])}"
    "y \<in> {canon (JArray [JNumber ''1'']), canon (JArray [JNumber ''2''])}" for x y
    using that by (auto simp: canon_def)
  from CanonicalDigest_discriminates [OF d, of "\<lambda>x. take 5 x", OF this] show ?thesis
    by simp
qed

text \<open>
  C37. The canonical text of any decoded value is valid UTF-8 that contains none of LF, CR, NEL, LINE
  SEPARATOR and PARAGRAPH SEPARATOR, so it is one line of a JSONL stream for every consumer.
\<close>

theorem canonical_one_line:
  assumes "decodeStrict data = Inr v"
  shows "\<exists>buf. appendCanonical [] v = Inr buf \<and> utf8_valid buf
    \<and> (\<forall>r \<in> set (runes buf). r \<noteq> 10 \<and> r \<noteq> 13 \<and> r \<noteq> 133 \<and> r \<noteq> 8232 \<and> r \<noteq> 8233)"
  using one_line_canon [OF decodeStrict_ok [OF assms]] decodeStrict_ok [OF assms]
  by (simp add: appendCanonical_ok one_line_def line_break_rune_def line_boundary_def)

theorem canonical_one_line_witness:
  "\<exists>buf. appendCanonical [] (JString [CHR 0x0A]) = Inr buf
    \<and> (\<forall>r \<in> set (runes buf). r \<noteq> 10)"
proof -
  have "decodeStrict [CHR 0x22, CHR 0x5C, CHR ''n'', CHR 0x22] = Inr (JString [CHR 0x0A])"
    by (simp add: json_eval simple_escape_def escape_value_def)
  from canonical_one_line [OF this] show ?thesis by blast
qed

text \<open>
  \<open>compareUTF16\<close>, which decodes rune by rune and encodes only the first differing pair, orders valid
  strings as the lexicographic order of their whole UTF-16 encodings does.
\<close>

theorem compareUTF16_reference:
  assumes "utf8_valid a" "utf8_valid b"
  shows "compareUTF16 a b = slices_compare (utf16_units (runes a)) (utf16_units (runes b))"
  using assms by (rule compareUTF16_units)

theorem compareUTF16_reference_witness:
  "compareUTF16 (encode_rune 65536) (encode_rune 65535) < 0"
proof -
  have "scalar 65536" "scalar 65535" by (simp_all add: scalar_def)
  note e = this
  have v: "utf8_valid (encode_rune 65536)" "utf8_valid (encode_rune 65535)"
    "runes (encode_rune 65536) = [65536]" "runes (encode_rune 65535) = [65535]"
    using utf8_valid_encode [OF e(1), of "[]"] runes_encode [OF e(1), of "[]"]
      utf8_valid_encode [OF e(2), of "[]"] runes_encode [OF e(2), of "[]"] by simp_all
  from compareUTF16_reference [OF v(1,2)] show ?thesis
    by (simp add: v(3,4) utf16_encode_rune_def cmp_compare_def e)
qed

lemma sorted_wrt_strict:
  assumes "sorted_wrt R xs" "distinct xs"
    and "\<And>x y. x \<in> set xs \<Longrightarrow> y \<in> set xs \<Longrightarrow> x \<noteq> y \<Longrightarrow> R x y \<Longrightarrow> S x y"
  shows "sorted_wrt S xs"
  using assms by (induction xs) fastforce+

text \<open>
  Key order does not depend on map iteration or on the sorting algorithm: any ascending permutation
  of the distinct, valid keys of an object is the one that \<open>slices.SortFunc\<close> with \<open>compareUTF16\<close> is
  modelled to return.
\<close>

theorem sortFunc_determined:
  assumes "distinct ks" "\<forall>k \<in> set ks. utf8_valid k"
    and "mset ys = mset ks" "sorted_wrt (\<lambda>a b. compareUTF16 a b \<le> 0) ys"
  shows "ys = sortFunc compareUTF16 ks"
proof -
  have ys: "set ys = set ks" "distinct ys"
    using assms(1) mset_eq_setD [OF assms(3)] mset_eq_imp_distinct_iff [OF assms(3)] by simp_all
  have "sorted_wrt (\<lambda>a b. compareUTF16 a b < 0) ys"
  proof (rule sorted_wrt_strict [OF assms(4) ys(2)])
    fix x y assume "x \<in> set ys" "y \<in> set ys" "x \<noteq> y" "compareUTF16 x y \<le> 0"
    then show "compareUTF16 x y < 0"
      using utf16.eq_0 [of x y] assms(2) ys(1) by simp
  qed
  then show ?thesis
    using utf16.sorted_unique [of ys "sortFunc compareUTF16 ks"] utf16.sorted [of ks] assms(1,2) ys by simp
qed

theorem sortFunc_determined_witness:
  "[''A'', ''a'', ''b''] = sortFunc compareUTF16 [''b'', ''A'', ''a'']"
  by (rule sortFunc_determined) (simp_all add: ascii_valid canon_eval decode_rune_1 utf16_encode_rune_def scalar_def)

text \<open>
  The canonical text of a value of more than 64 levels is produced, but it is never accepted back:
  the strict decoder reports the depth error, not a truncated value.
\<close>

theorem canonical_too_deep:
  assumes "jval_wf v" "MaxDepth < jdepth v"
  shows "\<exists>buf. appendCanonical [] v = Inr buf \<and> decodeStrict buf = Inl TooDeep"
  using assms by (simp add: appendCanonical_canon canon_def decodeStrict_render jval_wf_normal_form)

definition nested_arrays :: "nat \<Rightarrow> jval" where
  "nested_arrays n = ((\<lambda>v. JArray [v]) ^^ n) JNull"

lemma nested_arrays: "jval_wf (nested_arrays n) \<and> jdepth (nested_arrays n) = n"
  by (induction n) (simp_all add: nested_arrays_def)

theorem canonical_too_deep_witness:
  "\<exists>buf. appendCanonical [] (nested_arrays 65) = Inr buf \<and> decodeStrict buf = Inl TooDeep"
  by (rule canonical_too_deep) (simp_all add: nested_arrays MaxDepth_def)

text \<open>
  Canonicalization is idempotent: decoding canonical bytes and serializing again gives the same
  bytes.
\<close>

theorem canonical_stable:
  assumes "decodeStrict data = Inr v"
  shows "\<exists>buf w. appendCanonical [] v = Inr buf \<and> decodeStrict buf = Inr w \<and> appendCanonical [] w = Inr buf"
proof -
  obtain w where w: "decodeStrict (canon v) = Inr w" "canon w = canon v"
    using canonical.reencode [OF assms] by blast
  then show ?thesis
    using decodeStrict_ok [OF assms] decodeStrict_ok [OF w(1)] by (simp add: appendCanonical_ok)
qed

theorem canonical_stable_witness:
  "\<exists>buf w. appendCanonical [] (JObject [(''b'', JNull), (''a'', JNumber ''1'')]) = Inr buf
    \<and> decodeStrict buf = Inr w \<and> appendCanonical [] w = Inr buf"
proof -
  have "decodeStrict ''{\"b\":null,\"a\":1}'' = Inr (JObject [(''b'', JNull), (''a'', JNumber ''1'')])"
    by (simp add: json_eval)
  from canonical_stable [OF this] show ?thesis .
qed

end
