(* ===== verification/Timestamp.thy ===== *)
theory Timestamp
  imports Prelude
begin

text \<open>
  \<open>parseTimestamp\<close> of \<open>internal/contract/event.go\<close>, over a model of the standard library's \<open>time.Parse\<close>
  and \<open>Time.Format\<close> for the chunks that \<open>tsLayout\<close> has. A \<open>time.Time\<close> in UTC is the record of its civil
  fields. The parser keeps the library's leniency: one-digit hours, and a fractional second after the
  seconds although the layout has none.
\<close>

section \<open>Decimal text\<close>

definition digit_char :: "nat \<Rightarrow> char" where
  "digit_char n = ''0123456789'' ! n"

fun itoa :: "nat \<Rightarrow> bytes" where
  "itoa n = (if n < 10 then [digit_char n] else itoa (n div 10) @ [digit_char (n mod 10)])"

declare itoa.simps [simp del]

definition pad_int :: "nat \<Rightarrow> nat \<Rightarrow> bytes" where
  "pad_int w n = replicate (w - length (itoa n)) (CHR ''0'') @ itoa n"

definition digit_val :: "char \<Rightarrow> nat" where
  "digit_val c = bval c - 48"

fun atoi_acc :: "nat \<Rightarrow> bytes \<Rightarrow> nat option" where
  "atoi_acc acc [] = Some acc"
| "atoi_acc acc (c # t) = (if is_digit c then atoi_acc (acc * 10 + digit_val c) t else None)"

lemma bval_digit_char:
  assumes "n < 10"
  shows "bval (digit_char n) = 48 + n"
proof -
  have "list_all (\<lambda>i. bval (digit_char i) = 48 + i) [0..<10]"
    by code_simp
  then show ?thesis
    using assms by (simp add: list_all_iff)
qed

lemma digit_char [simp]:
  assumes "n < 10"
  shows "is_digit (digit_char n)" "digit_val (digit_char n) = n"
  using assms by (simp_all add: is_digit_def digit_val_def bval_digit_char)

lemma digit_char_0: "CHR ''0'' = digit_char 0"
  by (simp add: digit_char_def)

lemma length_itoa_pos [simp]: "length (itoa n) \<noteq> 0" "itoa n \<noteq> []"
  by (subst itoa.simps, simp)+

lemma pad_int_1: "n < 10 \<Longrightarrow> pad_int (Suc 0) n = [digit_char n]"
  by (simp add: pad_int_def itoa.simps)

lemma pad_int_Suc:
  assumes "0 < w"
  shows "pad_int (Suc w) n = pad_int w (n div 10) @ [digit_char (n mod 10)]"
proof (cases "n < 10")
  case True
  then show ?thesis
    using assms by (cases w) (simp_all add: pad_int_def itoa.simps digit_char_0 replicate_append_same)
next
  case False
  then show ?thesis
    by (simp add: pad_int_def itoa.simps [of n])
qed

lemma pad_int_2: "n < 100 \<Longrightarrow> pad_int 2 n = [digit_char (n div 10), digit_char (n mod 10)]"
  using pad_int_Suc [of 1 n] pad_int_1 [of "n div 10"] by (simp add: numeral_2_eq_2)

lemma itoa_digits: "set (itoa n) \<subseteq> digit_char ` {..<10}"
  by (induction n rule: itoa.induct) (subst itoa.simps, auto)

lemma atoi_itoa: "atoi_acc acc (itoa n @ t) = atoi_acc (acc * 10 ^ length (itoa n) + n) t"
proof (induction n arbitrary: acc t rule: itoa.induct)
  case (1 n)
  show ?case
  proof (cases "n < 10")
    case False
    then show ?thesis
      using 1 [OF False, of acc "digit_char (n mod 10) # t"]
      by (simp add: itoa.simps [of n] algebra_simps)
  qed (simp add: itoa.simps)
qed

lemma atoi_itoa_0 [codec]: "atoi_acc 0 (itoa n) = Some n"
  using atoi_itoa [of 0 n "[]"] by simp

lemma itoa_inj [simp]: "itoa m = itoa n \<longleftrightarrow> m = n"
  by (metis atoi_itoa_0 option.inject)

lemma itoa_is_digit: "c \<in> set (itoa n) \<Longrightarrow> is_digit c"
  using itoa_digits [of n] by auto

lemma pad_int_4:
  assumes "n < 10000"
  shows "pad_int 4 n = [digit_char (n div 10 div 10 div 10), digit_char (n div 10 div 10 mod 10),
    digit_char (n div 10 mod 10), digit_char (n mod 10)]"
proof -
  have "pad_int 4 n = pad_int (Suc (Suc (Suc (Suc 0)))) n" by (simp add: eval_nat_numeral)
  then show ?thesis
    using pad_int_Suc [of 3 n] pad_int_Suc [of 2 "n div 10"] pad_int_2 [of "n div 10 div 10"] assms
    by (simp add: numeral_3_eq_3 numeral_2_eq_2 div_mult2_eq [symmetric] less_mult_imp_div_less)
qed

section \<open>Time values\<close>

record gotime =
  t_year :: nat
  t_month :: nat
  t_day :: nat
  t_hour :: nat
  t_min :: nat
  t_sec :: nat
  t_nsec :: nat

definition leap_year :: "nat \<Rightarrow> bool" where
  "leap_year y \<longleftrightarrow> y mod 4 = 0 \<and> (y mod 100 \<noteq> 0 \<or> y mod 400 = 0)"

definition days_in :: "nat \<Rightarrow> nat \<Rightarrow> nat" where
  "days_in m y =
    (if m = 2 then (if leap_year y then 29 else 28)
     else if m \<in> {4, 6, 9, 11} then 30 else 31)"

definition valid_time :: "gotime \<Rightarrow> bool" where
  "valid_time t \<longleftrightarrow> t_year t < 10000 \<and> 1 \<le> t_month t \<and> t_month t \<le> 12
    \<and> 1 \<le> t_day t \<and> t_day t \<le> days_in (t_month t) (t_year t)
    \<and> t_hour t < 24 \<and> t_min t < 60 \<and> t_sec t < 60"

section \<open>Layout chunks\<close>

datatype layout_chunk =
  Lit bytes | LongYear | ZeroMonth | ZeroDay | Hour | ZeroMinute | ZeroSecond

text \<open>What \<open>nextStdChunk\<close> splits \<open>tsLayout\<close>, \<open>2006-01-02T15:04:05Z\<close>, into; a bare \<open>Z\<close> is a literal.\<close>

definition tsLayout :: "layout_chunk list" where
  "tsLayout = [LongYear, Lit ''-'', ZeroMonth, Lit ''-'', ZeroDay, Lit ''T'', Hour, Lit '':'',
     ZeroMinute, Lit '':'', ZeroSecond, Lit ''Z'']"

datatype time_error = BadValue layout_chunk | FieldOutOfRange layout_chunk | DayOutOfRange | ExtraText

fun getnum :: "bytes \<Rightarrow> bool \<Rightarrow> (nat \<times> bytes) option" where
  "getnum [] fixed = None"
| "getnum [a] fixed = (if \<not> is_digit a \<or> fixed then None else Some (digit_val a, []))"
| "getnum (a # b # t) fixed =
    (if \<not> is_digit a then None
     else if \<not> is_digit b then (if fixed then None else Some (digit_val a, b # t))
     else Some (digit_val a * 10 + digit_val b, t))"

text \<open>A fractional second that the layout did not ask for: \<open>.\<close> or \<open>,\<close> and at least one digit.\<close>

definition skip_fraction :: "bytes \<Rightarrow> nat \<times> bytes" where
  "skip_fraction v =
    (case v of
       c # d # t \<Rightarrow>
         if (c = CHR ''.'' \<or> c = CHR '','') \<and> is_digit d then
           (let ds = takeWhile is_digit (d # t); used = take 9 ds in
             (the (atoi_acc 0 used) * 10 ^ (9 - length used), dropWhile is_digit (d # t)))
         else (0, v)
     | _ \<Rightarrow> (0, v))"

fun parse_chunk :: "layout_chunk \<Rightarrow> gotime \<Rightarrow> bytes \<Rightarrow> time_error + gotime \<times> bytes" where
  "parse_chunk (Lit p) t v =
    (if take (length p) v = p then Inr (t, drop (length p) v) else Inl (BadValue (Lit p)))"
| "parse_chunk LongYear t v =
    (case v of
       a # b # c # d # r \<Rightarrow>
         (case atoi_acc 0 [a, b, c, d] of
            None \<Rightarrow> Inl (BadValue LongYear)
          | Some y \<Rightarrow> Inr (t\<lparr>t_year := y\<rparr>, r))
     | _ \<Rightarrow> Inl (BadValue LongYear))"
| "parse_chunk ZeroMonth t v =
    (case getnum v True of
       None \<Rightarrow> Inl (BadValue ZeroMonth)
     | Some (n, r) \<Rightarrow>
         if n = 0 \<or> 12 < n then Inl (FieldOutOfRange ZeroMonth) else Inr (t\<lparr>t_month := n\<rparr>, r))"
| "parse_chunk ZeroDay t v =
    (case getnum v True of
       None \<Rightarrow> Inl (BadValue ZeroDay)
     | Some (n, r) \<Rightarrow> Inr (t\<lparr>t_day := n\<rparr>, r))"
| "parse_chunk Hour t v =
    (case getnum v False of
       None \<Rightarrow> Inl (BadValue Hour)
     | Some (n, r) \<Rightarrow> if 24 \<le> n then Inl (FieldOutOfRange Hour) else Inr (t\<lparr>t_hour := n\<rparr>, r))"
| "parse_chunk ZeroMinute t v =
    (case getnum v True of
       None \<Rightarrow> Inl (BadValue ZeroMinute)
     | Some (n, r) \<Rightarrow> if 60 \<le> n then Inl (FieldOutOfRange ZeroMinute) else Inr (t\<lparr>t_min := n\<rparr>, r))"
| "parse_chunk ZeroSecond t v =
    (case getnum v True of
       None \<Rightarrow> Inl (BadValue ZeroSecond)
     | Some (n, r) \<Rightarrow>
         if 60 \<le> n then Inl (FieldOutOfRange ZeroSecond)
         else (case skip_fraction r of (ns, r') \<Rightarrow> Inr (t\<lparr>t_sec := n, t_nsec := ns\<rparr>, r')))"

fun parse_chunks :: "layout_chunk list \<Rightarrow> gotime \<Rightarrow> bytes \<Rightarrow> time_error + gotime \<times> bytes" where
  "parse_chunks [] t v = Inr (t, v)"
| "parse_chunks (c # cs) t v =
    (case parse_chunk c t v of Inl e \<Rightarrow> Inl e | Inr (t', v') \<Rightarrow> parse_chunks cs t' v')"

definition zero_time :: gotime where
  "zero_time = \<lparr>t_year = 0, t_month = 1, t_day = 1, t_hour = 0, t_min = 0, t_sec = 0, t_nsec = 0\<rparr>"

definition time_parse :: "layout_chunk list \<Rightarrow> bytes \<Rightarrow> time_error + gotime" where
  "time_parse layout value =
    (case parse_chunks layout zero_time value of
       Inl e \<Rightarrow> Inl e
     | Inr (t, rest) \<Rightarrow>
         if rest \<noteq> [] then Inl ExtraText
         else if t_day t < 1 \<or> days_in (t_month t) (t_year t) < t_day t then Inl DayOutOfRange
         else Inr t)"

fun format_chunk :: "gotime \<Rightarrow> layout_chunk \<Rightarrow> bytes" where
  "format_chunk t (Lit p) = p"
| "format_chunk t LongYear = pad_int 4 (t_year t)"
| "format_chunk t ZeroMonth = pad_int 2 (t_month t)"
| "format_chunk t ZeroDay = pad_int 2 (t_day t)"
| "format_chunk t Hour = pad_int 2 (t_hour t)"
| "format_chunk t ZeroMinute = pad_int 2 (t_min t)"
| "format_chunk t ZeroSecond = pad_int 2 (t_sec t)"

definition time_format :: "layout_chunk list \<Rightarrow> gotime \<Rightarrow> bytes" where
  "time_format layout t = concat (map (format_chunk t) layout)"

section \<open>\<open>parseTimestamp\<close>\<close>

datatype ts_error = TsParse time_error | NotWholeSecondUTC bytes

definition parseTimestamp :: "bytes \<Rightarrow> ts_error + gotime" where
  "parseTimestamp raw =
    (case time_parse tsLayout raw of
       Inl e \<Rightarrow> Inl (TsParse e)
     | Inr ts \<Rightarrow> if time_format tsLayout ts \<noteq> raw then Inl (NotWholeSecondUTC raw) else Inr ts)"

lemma getnum_pad: "n < 100 \<Longrightarrow> getnum (pad_int 2 n @ t) fixed = Some (n, t)"
  by (simp add: pad_int_2)

lemma parse_year_pad: "n < 10000 \<Longrightarrow> parse_chunk LongYear t (pad_int 4 n @ r) = Inr (t\<lparr>t_year := n\<rparr>, r)"
proof -
  assume n: "n < 10000"
  define a b c d where ds: "a = n div 10 div 10 div 10" "b = n div 10 div 10 mod 10" "c = n div 10 mod 10" "d = n mod 10"
  have "a < 10" "b < 10" "c < 10" "d < 10"
    using n by (simp_all add: ds div_mult2_eq [symmetric] less_mult_imp_div_less)
  moreover have "((a * 10 + b) * 10 + c) * 10 + d = n"
    by (simp add: ds)
  ultimately show ?thesis
    unfolding pad_int_4 [OF n] ds [symmetric] by (simp del: mult.assoc)
qed

lemma skip_fraction_Z: "skip_fraction (CHR ''Z'' # t) = (0, CHR ''Z'' # t)"
  by (simp add: skip_fraction_def split: list.split)

lemma days_in_le: "days_in m y \<le> 31"
  by (simp add: days_in_def)

lemma time_parse_format:
  assumes "valid_time t" "t_nsec t = 0"
  shows "time_parse tsLayout (time_format tsLayout t) = Inr t"
proof -
  have "t_day t < 100"
    using assms days_in_le [of "t_month t" "t_year t"] by (simp add: valid_time_def)
  moreover have "t_month t < 100" "t_hour t < 100" "t_min t < 100" "t_sec t < 100" "t_year t < 10000"
    using assms by (simp_all add: valid_time_def)
  ultimately show ?thesis
    using assms
    by (simp add: time_parse_def time_format_def tsLayout_def getnum_pad parse_year_pad skip_fraction_Z
        valid_time_def zero_time_def del: parse_chunk.simps(2))
qed

lemma getnum_bound: "getnum v f = Some (n, r) \<Longrightarrow> n < 100"
  by (induction v f rule: getnum.induct) (auto simp: is_digit_def digit_val_def split: if_splits)

lemma atoi_4_bound: "atoi_acc 0 [a, b, c, d] = Some y \<Longrightarrow> y < 10000"
  by (auto simp: is_digit_def digit_val_def split: if_splits)

lemma time_parse_valid: "time_parse tsLayout raw = Inr t \<Longrightarrow> valid_time t"
  by (auto simp: time_parse_def tsLayout_def valid_time_def
      dest!: atoi_4_bound split: sum.split_asm if_split_asm option.split_asm prod.split_asm list.split_asm
      simp del: atoi_acc.simps)

lemma parseTimestamp_iff:
  "parseTimestamp raw = Inr t \<longleftrightarrow> valid_time t \<and> t_nsec t = 0 \<and> raw = time_format tsLayout t"
    (is "?l \<longleftrightarrow> ?r")
proof
  assume ?l
  then have p: "time_parse tsLayout raw = Inr t" and raw: "raw = time_format tsLayout t"
    by (auto simp: parseTimestamp_def split: sum.split_asm if_split_asm)
  let ?t = "t\<lparr>t_nsec := 0\<rparr>"
  have "time_format tsLayout ?t = raw"
    by (simp add: raw time_format_def tsLayout_def)
  moreover have "valid_time ?t"
    using time_parse_valid [OF p] by (simp add: valid_time_def)
  ultimately have "t = ?t"
    using time_parse_format [of ?t] p by simp
  then have "t_nsec t = 0"
    by (metis gotime.select_convs(7) gotime.surjective gotime.update_convs(7))
  then show ?r
    using time_parse_valid [OF p] raw by simp
next
  assume ?r
  then show ?l
    using time_parse_format [of t] by (simp add: parseTimestamp_def)
qed

section \<open>Properties\<close>

text \<open>
  C39. \<open>parseTimestamp\<close> accepts exactly the renderings of valid whole-second civil times: it returns the
  time \<open>t\<close> exactly when \<open>t\<close> is calendar-valid without a fraction and the input is the layout's text of
  \<open>t\<close>. In particular one instant has one encoding, and a one-digit hour, a fraction or a 30 February,
  which \<open>time.Parse\<close> reads or the schema pattern allows, is rejected.
\<close>

theorem parseTimestamp_language:
  "parseTimestamp raw = Inr t \<longleftrightarrow> valid_time t \<and> t_nsec t = 0 \<and>
     raw = pad_int 4 (t_year t) @ ''-'' @ pad_int 2 (t_month t) @ ''-'' @ pad_int 2 (t_day t) @ ''T''
       @ pad_int 2 (t_hour t) @ '':'' @ pad_int 2 (t_min t) @ '':'' @ pad_int 2 (t_sec t) @ ''Z''"
  by (simp add: parseTimestamp_iff time_format_def tsLayout_def)

theorem parseTimestamp_language_witness:
  "parseTimestamp ''2024-02-29T23:59:59Z'' =
     Inr \<lparr>t_year = 2024, t_month = 2, t_day = 29, t_hour = 23, t_min = 59, t_sec = 59, t_nsec = 0\<rparr>"
  unfolding parseTimestamp_language
  by (simp add: valid_time_def days_in_def leap_year_def pad_int_2 pad_int_4 digit_char_def)

lemma parseTimestamp_rejects:
  "time_parse tsLayout ''2024-02-29T3:59:59.5Z'' \<noteq> Inl e"
  "parseTimestamp ''2024-02-29T3:59:59.5Z'' = Inl (NotWholeSecondUTC ''2024-02-29T3:59:59.5Z'')"
  "parseTimestamp ''2023-02-29T23:59:59Z'' = Inl (TsParse DayOutOfRange)"
  by (simp_all add: parseTimestamp_def time_parse_def time_format_def tsLayout_def zero_time_def
      is_digit_def digit_val_def skip_fraction_def days_in_def leap_year_def pad_int_2 pad_int_4 digit_char_def)

end
