(* ===== verification/Json_Number.thy ===== *)
theory Json_Number
  imports Timestamp
begin

text \<open>
  The integer that a number lexeme denotes: plain decimal digits as \<open>strconv\<close> reads them, and the exact value
  of a JSON number, which is what the schemas mean by an integer whatever its notation.
\<close>

definition parse_digits :: "bytes \<Rightarrow> nat option" where
  "parse_digits s = (if s = [] then None else atoi_acc 0 s)"

text \<open>
  The integer a JSON number denotes, if it denotes one: mantissa and exponent, exactly, as the validator
  reads it with \<open>big.Rat.SetString\<close>, which refuses an exponent beyond an \<open>int64\<close> and, unless the mantissa is
  zero, a power of ten beyond a million.
\<close>

definition signed_exponent :: "bytes \<Rightarrow> int option" where
  "signed_exponent s =
    (if s \<noteq> [] \<and> hd s = CHR ''-'' then map_option (\<lambda>n. - int n) (parse_digits (tl s))
     else if s \<noteq> [] \<and> hd s = CHR ''+'' then map_option int (parse_digits (tl s))
     else map_option int (parse_digits s))"

definition scaled_integer :: "int \<Rightarrow> int \<Rightarrow> int option" where
  "scaled_integer m k =
    (if m = 0 then Some 0
     else if \<bar>k\<bar> > 1000000 then None
     else if k \<ge> 0 then Some (m * 10 ^ nat k)
     else if 10 ^ nat (- k) dvd m then Some (m div 10 ^ nat (- k)) else None)"

definition json_integer :: "bytes \<Rightarrow> int option" where
  "json_integer lexeme =
    (let neg = (lexeme \<noteq> [] \<and> hd lexeme = CHR ''-'');
         s = (if neg then tl lexeme else lexeme);
         mant = takeWhile (\<lambda>c. c \<noteq> CHR ''e'' \<and> c \<noteq> CHR ''E'') s;
         ip = takeWhile (\<lambda>c. c \<noteq> CHR ''.'') mant;
         fp = drop (length ip + 1) mant;
         ex = (if length mant < length s then signed_exponent (drop (length mant + 1) s) else Some 0)
     in (case (parse_digits (ip @ fp), ex) of
           (Some m, Some e) \<Rightarrow>
             if - (2 ^ 63) \<le> e \<and> e < 2 ^ 63
             then scaled_integer (if neg then - int m else int m) (e - int (length fp)) else None
         | _ \<Rightarrow> None))"

lemma atoi_acc_digits: "atoi_acc acc s = Some n \<Longrightarrow> c \<in> set s \<Longrightarrow> is_digit c"
  by (induction s arbitrary: acc) (auto split: if_splits)

lemma parse_digits_Some:
  assumes "parse_digits s = Some n"
  shows "s \<noteq> []" "\<And>c. c \<in> set s \<Longrightarrow> is_digit c"
  using assms atoi_acc_digits by (auto simp: parse_digits_def split: if_split_asm)

lemma digit_not_mark: "is_digit c \<Longrightarrow> c \<noteq> CHR ''e'' \<and> c \<noteq> CHR ''E'' \<and> c \<noteq> CHR ''.'' \<and> c \<noteq> CHR ''-'' \<and> c \<noteq> CHR ''+''"
  by (auto simp: is_digit_def)

text \<open>A lexeme that \<open>ParseInt\<close> reads denotes the integer it reads.\<close>

lemma json_integer_digits:
  assumes "parse_digits s = Some n"
  shows "json_integer s = Some (int n)" "json_integer (CHR ''-'' # s) = Some (- int n)"
proof -
  have d: "c \<noteq> CHR ''e'' \<and> c \<noteq> CHR ''E'' \<and> c \<noteq> CHR ''.'' \<and> c \<noteq> CHR ''-''" if "c \<in> set s" for c
    using digit_not_mark parse_digits_Some(2) [OF assms that] by blast
  have tw: "takeWhile (\<lambda>c. c \<noteq> CHR ''e'' \<and> c \<noteq> CHR ''E'') s = s" "takeWhile (\<lambda>c. c \<noteq> CHR ''.'') s = s"
    using d by (simp_all add: takeWhile_eq_all_conv)
  have "hd s \<noteq> CHR ''-''"
    using d parse_digits_Some(1) [OF assms] by simp
  then show "json_integer s = Some (int n)" "json_integer (CHR ''-'' # s) = Some (- int n)"
    using assms by (simp_all add: json_integer_def tw scaled_integer_def)
qed

lemma parse_digits_itoa [simp]: "parse_digits (itoa n) = Some n"
  by (simp add: parse_digits_def atoi_itoa_0)

lemma itoa_no_sign: "hd (itoa n) \<noteq> CHR ''-''" "hd (itoa n) \<noteq> CHR ''+''"
  using digit_not_mark [OF itoa_is_digit [OF hd_in_set [of "itoa n"]]] by simp_all

end
