(* ===== verification/Event.thy ===== *)
theory Event
  imports Canonical_Roundtrip Slug Timestamp
begin

text \<open>
  \<open>internal/contract/event.go\<close>: the parse profile for one event line. The JSON Schema validator is a
  third-party package: \<open>validate schema value\<close> is an argument of the model, \<open>None\<close> for a valid value.
  The field rules that every record shares and the watcher's clauses are stated here too, translated from
  \<open>schemas/event.schema.json\<close> (\<open>$defs/baseEvent\<close>, \<open>$defs/watcherEvent\<close>). A failed type assertion is the error
  \<open>TypeAssertionPanic\<close>.
\<close>

section \<open>Constants and data\<close>

definition SyntheticIDPrefix :: bytes where
  "SyntheticIDPrefix = ''agent-signals:synthetic:''"

definition gapIDPrefix :: bytes where
  "gapIDPrefix = SyntheticIDPrefix @ ''gap:''"

definition overflowIDPrefix :: bytes where
  "overflowIDPrefix = SyntheticIDPrefix @ ''overflow:''"

definition DefaultMaxEventBytes :: int where "DefaultMaxEventBytes = 262144"
definition CeilingMaxEventBytes :: int where "CeilingMaxEventBytes = 1048576"
definition summaryTargetRunes :: nat where "summaryTargetRunes = 120"

definition SeverityInfo :: bytes where "SeverityInfo = ''info''"
definition SeverityWarn :: bytes where "SeverityWarn = ''warn''"
definition SeverityError :: bytes where "SeverityError = ''error''"

text \<open>A \<open>Profile\<close> is any Go int; three values are named.\<close>

type_synonym profile = int

definition WatcherInput :: profile where "WatcherInput = 0"
definition SpoolRecord :: profile where "SpoolRecord = 1"
definition DeliveryRecord :: profile where "DeliveryRecord = 2"

record event =
  e_id :: bytes
  e_ts :: gotime
  e_source :: bytes
  e_kind :: bytes
  e_severity :: bytes
  e_summary :: bytes
  e_data :: "(bytes \<times> jval) list option"
  e_digest :: bytes

datatype event_warning = SummaryAboveTarget nat

datatype 'v event_error =
    Oversized nat int
  | NotSingleLine
  | DecodeFailed decode_error
  | NotAnObject
  | UnknownProfile profile
  | ReservedPrefix
  | UnknownServiceKind bytes
  | GapNeverSpooled bytes
  | SchemaViolation 'v
  | BadTimestamp ts_error
  | DigestFailed canon_error
  | TypeAssertionPanic bytes

record 's schemaSet =
  watcherEvent :: 's
  deliveryEvent :: 's
  gapEvent :: 's
  overflowEvent :: 's
  manifestSchema :: 's

text \<open>The schema set from the compiler, which maps the URL of a schema to its compiled form.\<close>

definition eventURL :: bytes where
  "eventURL = ''https://github.com/milanhorvatovic/agent-signals/schemas/event.schema.json''"

definition monitorsURL :: bytes where
  "monitorsURL = ''https://github.com/milanhorvatovic/agent-signals/schemas/monitors.schema.json''"

definition compiledSchemas :: "(bytes \<Rightarrow> 's) \<Rightarrow> 's schemaSet" where
  "compiledSchemas mustCompile =
    \<lparr>watcherEvent = mustCompile eventURL,
     deliveryEvent = mustCompile (eventURL @ ''#/$defs/baseEvent''),
     gapEvent = mustCompile (eventURL @ ''#/$defs/gapEvent''),
     overflowEvent = mustCompile (eventURL @ ''#/$defs/overflowEvent''),
     manifestSchema = mustCompile monitorsURL\<rparr>"

section \<open>The parse profile\<close>

definition profileSchema :: "'s schemaSet \<Rightarrow> profile \<Rightarrow> bytes \<Rightarrow> 'v event_error + 's" where
  "profileSchema S profile i =
    (if profile \<noteq> WatcherInput \<and> profile \<noteq> SpoolRecord \<and> profile \<noteq> DeliveryRecord
     then Inl (UnknownProfile profile)
     else if \<not> prefix SyntheticIDPrefix i \<and> profile = DeliveryRecord then Inr (deliveryEvent S)
     else if \<not> prefix SyntheticIDPrefix i then Inr (watcherEvent S)
     else if profile = WatcherInput then Inl ReservedPrefix
     else if prefix overflowIDPrefix i then Inr (overflowEvent S)
     else if \<not> prefix gapIDPrefix i then Inl (UnknownServiceKind i)
     else if profile = DeliveryRecord then Inr (gapEvent S)
     else Inl (GapNeverSpooled i))"

definition trim_newline :: "bytes \<Rightarrow> bytes" where
  "trim_newline line = (if line \<noteq> [] \<and> last line = CHR 0x0A then butlast line else line)"

text \<open>\<open>s, ok := obj[k].(string)\<close>, and the two ways the code uses it.\<close>

definition member_string :: "(bytes \<times> jval) list \<Rightarrow> bytes \<Rightarrow> bytes option" where
  "member_string obj k = (case map_of obj k of Some (JString s) \<Rightarrow> Some s | _ \<Rightarrow> None)"

definition string_or_empty :: "(bytes \<times> jval) list \<Rightarrow> bytes \<Rightarrow> bytes" where
  "string_or_empty obj k = (case member_string obj k of Some s \<Rightarrow> s | None \<Rightarrow> [])"

definition assert_string :: "(bytes \<times> jval) list \<Rightarrow> bytes \<Rightarrow> 'v event_error + bytes" where
  "assert_string obj k = (case member_string obj k of Some s \<Rightarrow> Inr s | None \<Rightarrow> Inl (TypeAssertionPanic k))"

definition object_member :: "(bytes \<times> jval) list \<Rightarrow> bytes \<Rightarrow> (bytes \<times> jval) list option" where
  "object_member obj k = (case map_of obj k of Some (JObject ms) \<Rightarrow> Some ms | _ \<Rightarrow> None)"

definition bind_err :: "'e + 'a \<Rightarrow> ('a \<Rightarrow> 'e + 'b) \<Rightarrow> 'e + 'b" where
  "bind_err x f = (case x of Inl e \<Rightarrow> Inl e | Inr a \<Rightarrow> f a)"

definition map_err :: "('e \<Rightarrow> 'f) \<Rightarrow> 'e + 'a \<Rightarrow> 'f + 'a" where
  "map_err f x = (case x of Inl e \<Rightarrow> Inl (f e) | Inr a \<Rightarrow> Inr a)"

definition summary_warnings :: "bytes \<Rightarrow> event_warning list" where
  "summary_warnings s =
    (if rune_count s > summaryTargetRunes then [SummaryAboveTarget (rune_count s)] else [])"

text \<open>The typed extraction, from the validated object to the event, in the order of the code.\<close>

definition extract_event ::
  "(bytes \<Rightarrow> bytes) \<Rightarrow> (bytes \<times> jval) list \<Rightarrow> bytes \<Rightarrow> 'v event_error + event \<times> event_warning list" where
  "extract_event sha256 obj i =
    bind_err (assert_string obj ''ts'') (\<lambda>raw.
    bind_err (map_err BadTimestamp (parseTimestamp raw)) (\<lambda>ts.
    bind_err (map_err DigestFailed (CanonicalDigest sha256 (JObject obj))) (\<lambda>digest.
    bind_err (assert_string obj ''source'') (\<lambda>source.
    bind_err (assert_string obj ''kind'') (\<lambda>kind.
    bind_err (assert_string obj ''severity'') (\<lambda>severity.
    bind_err (assert_string obj ''summary'') (\<lambda>summary.
      Inr (\<lparr>e_id = i, e_ts = ts, e_source = source, e_kind = kind, e_severity = severity,
            e_summary = summary, e_data = object_member obj ''data'', e_digest = digest\<rparr>,
           summary_warnings summary))))))))"

definition effective_max :: "int \<Rightarrow> int" where
  "effective_max maxEventBytes = (if maxEventBytes \<le> 0 then DefaultMaxEventBytes else maxEventBytes)"

definition ParseEventLine ::
  "('s \<Rightarrow> jval \<Rightarrow> 'v option) \<Rightarrow> 's schemaSet \<Rightarrow> (bytes \<Rightarrow> bytes) \<Rightarrow> bytes \<Rightarrow> int \<Rightarrow> profile \<Rightarrow>
   'v event_error + event \<times> event_warning list" where
  "ParseEventLine validate S sha256 line maxEventBytes profile =
    (if int (length line) > effective_max maxEventBytes
     then Inl (Oversized (length line) (effective_max maxEventBytes))
     else if CHR 0x0A \<in> set (trim_newline line) then Inl NotSingleLine
     else (case decodeStrict (trim_newline line) of
             Inl e \<Rightarrow> Inl (DecodeFailed e)
           | Inr value \<Rightarrow>
               (case value of
                  JObject obj \<Rightarrow>
                    bind_err (profileSchema S profile (string_or_empty obj ''id'')) (\<lambda>schema.
                      (case validate schema value of
                         Some e \<Rightarrow> Inl (SchemaViolation e)
                       | None \<Rightarrow> extract_event sha256 obj (string_or_empty obj ''id'')))
                | _ \<Rightarrow> Inl NotAnObject)))"

section \<open>The event schemas\<close>

text \<open>The control-free pattern: none of C0, DEL, C1 and the Unicode line separators.\<close>

definition control_rune :: "nat \<Rightarrow> bool" where
  "control_rune r \<longleftrightarrow> r \<le> 31 \<or> (127 \<le> r \<and> r \<le> 159) \<or> r = 8232 \<or> r = 8233"

definition line_text_ok :: "nat \<Rightarrow> bytes \<Rightarrow> bool" where
  "line_text_ok bound s \<longleftrightarrow>
     1 \<le> rune_count s \<and> rune_count s \<le> bound \<and> list_all (\<lambda>r. \<not> control_rune r) (runes s)"

definition two_digits :: "char \<Rightarrow> char \<Rightarrow> nat" where
  "two_digits a b = digit_val a * 10 + digit_val b"

text \<open>The pattern of \<open>ts\<close> with its length pins, and the calendar validity of the date-time format.\<close>

fun ts_schema_ok :: "bytes \<Rightarrow> bool" where
  "ts_schema_ok [y1, y2, y3, y4, p1, m1, m2, p2, d1, d2, p3, h1, h2, p4, n1, n2, p5, s1, s2, p6] =
    (list_all is_digit [y1, y2, y3, y4, m1, m2, d1, d2, h1, h2, n1, n2, s1, s2]
     \<and> [p1, p2, p3, p4, p5, p6] = ''--T::Z''
     \<and> 1 \<le> two_digits m1 m2 \<and> two_digits m1 m2 \<le> 12
     \<and> 1 \<le> two_digits d1 d2
     \<and> two_digits d1 d2 \<le> days_in (two_digits m1 m2) (two_digits y1 y2 * 100 + two_digits y3 y4)
     \<and> two_digits h1 h2 < 24 \<and> two_digits n1 n2 < 60 \<and> two_digits s1 s2 < 60)"
| "ts_schema_ok _ = False"

definition string_member :: "(bytes \<times> jval) list \<Rightarrow> bytes \<Rightarrow> (bytes \<Rightarrow> bool) \<Rightarrow> bool" where
  "string_member obj k p \<longleftrightarrow> (case member_string obj k of Some s \<Rightarrow> p s | None \<Rightarrow> False)"

definition event_keys :: "bytes list" where
  "event_keys = [''id'', ''ts'', ''source'', ''kind'', ''severity'', ''summary'', ''data'']"

fun base_event_ok :: "jval \<Rightarrow> bool" where
  "base_event_ok (JObject obj) =
    (string_member obj ''id'' (line_text_ok 256)
     \<and> string_member obj ''ts'' ts_schema_ok
     \<and> string_member obj ''source'' (\<lambda>s. slug_pattern s \<and> rune_count s \<le> 128)
     \<and> string_member obj ''kind'' (line_text_ok 128)
     \<and> string_member obj ''severity'' (\<lambda>s. s \<in> {SeverityInfo, SeverityWarn, SeverityError})
     \<and> string_member obj ''summary'' (line_text_ok 512)
     \<and> (map_of obj ''data'' = None \<or> object_member obj ''data'' \<noteq> None)
     \<and> list_all (\<lambda>p. fst p \<in> set event_keys) obj)"
| "base_event_ok _ = False"

definition projection_marker :: jval where
  "projection_marker = JObject [(''$projected'', JBool True)]"

fun watcher_event_ok :: "jval \<Rightarrow> bool" where
  "watcher_event_ok (JObject obj) =
    (base_event_ok (JObject obj)
     \<and> \<not> prefix SyntheticIDPrefix (string_or_empty obj ''id'')
     \<and> map_of obj ''data'' \<noteq> Some projection_marker)"
| "watcher_event_ok _ = False"

end
