(* ===== verification/Event_Schema.thy ===== *)
theory Event_Schema
  imports Event Json_Number
begin

text \<open>
  The schemas of the service's own records, translated from \<open>schemas/event.schema.json\<close> (\<open>$defs/gapEvent\<close>,
  \<open>$defs/overflowEvent\<close>), and \<open>schemas_implemented\<close>, the hypothesis that the validator implements the four event
  schemas. Then what the profile needs of a valid object: its timestamp parses, no extraction step fails
  (locale \<open>record_schema\<close>), and validity does not depend on the order of members.
\<close>

section \<open>Service records\<close>

definition has_member :: "(bytes \<times> jval) list \<Rightarrow> bytes \<Rightarrow> bool" where
  "has_member d k \<longleftrightarrow> (case map_of d k of None \<Rightarrow> False | Some _ \<Rightarrow> True)"

definition optional_string :: "(bytes \<times> jval) list \<Rightarrow> bytes \<Rightarrow> (bytes \<Rightarrow> bool) \<Rightarrow> bool" where
  "optional_string d k p \<longleftrightarrow> \<not> has_member d k \<or> string_member d k p"

definition members_within :: "(bytes \<times> jval) list \<Rightarrow> bytes list \<Rightarrow> bool" where
  "members_within d ks \<longleftrightarrow> list_all (\<lambda>p. fst p \<in> set ks) d"

text \<open>What is between two literals, for the patterns of identifiers and summaries.\<close>

definition strip_literals :: "bytes \<Rightarrow> bytes \<Rightarrow> bytes \<Rightarrow> bytes option" where
  "strip_literals pre post s =
    (if prefix pre s \<and> suffix post s \<and> length pre + length post \<le> length s
     then Some (drop (length pre) (take (length s - length post) s)) else None)"

definition between :: "bytes \<Rightarrow> bytes \<Rightarrow> (bytes \<Rightarrow> bool) \<Rightarrow> bytes \<Rightarrow> bool" where
  "between pre post p s \<longleftrightarrow> (case strip_literals pre post s of Some m \<Rightarrow> p m | None \<Rightarrow> False)"

definition lower_hex64 :: "bytes \<Rightarrow> bool" where
  "lower_hex64 s \<longleftrightarrow> length s = 64 \<and> list_all (\<lambda>c. is_digit c \<or> 97 \<le> bval c \<and> bval c \<le> 102) s"

definition nonempty_digits :: "bytes \<Rightarrow> bool" where
  "nonempty_digits s \<longleftrightarrow> s \<noteq> [] \<and> list_all is_digit s"

text \<open>\<open>.+literal.+\<close>: the literal occurs with something before and something after it.\<close>

definition around :: "bytes \<Rightarrow> bytes \<Rightarrow> bool" where
  "around mid s \<longleftrightarrow> list_ex (\<lambda>i. prefix mid (drop i s) \<and> i + length mid < length s) [1..<length s]"

definition gap_keys :: "bytes list" where
  "gap_keys = [''cursor_id'', ''last_id'', ''last_removed_id'', ''first_available_id'']"

definition gap_data_ok :: "(bytes \<times> jval) list \<Rightarrow> bool" where
  "gap_data_ok d \<longleftrightarrow>
    string_member d ''cursor_id'' (line_text_ok 514)
    \<and> (map_of d ''last_id'' = Some JNull \<or> string_member d ''last_id'' (line_text_ok 256))
    \<and> optional_string d ''last_removed_id'' (line_text_ok 256)
    \<and> optional_string d ''first_available_id'' (line_text_ok 256)
    \<and> members_within d gap_keys"

definition gap_retained :: "(bytes \<times> jval) list \<Rightarrow> (bytes \<times> jval) list \<Rightarrow> bool" where
  "gap_retained obj d \<longleftrightarrow>
    string_member obj ''summary'' (between ''events after '' [] (around '' were removed by retention; resuming from ''))
    \<and> has_member d ''first_available_id''"

definition gap_emptied :: "(bytes \<times> jval) list \<Rightarrow> (bytes \<times> jval) list \<Rightarrow> bool" where
  "gap_emptied obj d \<longleftrightarrow>
    string_member obj ''summary'' (between ''events after '' '' were removed by retention; none retained'' (\<lambda>m. m \<noteq> []))
    \<and> has_member d ''last_removed_id'' \<and> \<not> has_member d ''first_available_id''"

fun gap_event_ok :: "jval \<Rightarrow> bool" where
  "gap_event_ok (JObject obj) =
    (base_event_ok (JObject obj)
     \<and> string_member obj ''id'' (between gapIDPrefix [] lower_hex64)
     \<and> string_member obj ''kind'' (\<lambda>s. s = ''gap'')
     \<and> string_member obj ''severity'' (\<lambda>s. s = SeverityWarn)
     \<and> (case object_member obj ''data'' of
          None \<Rightarrow> False
        | Some d \<Rightarrow> gap_data_ok d \<and> gap_retained obj d \<noteq> gap_emptied obj d))"
| "gap_event_ok _ = False"

text \<open>The sequence of an overflow record: six digits from 000001, unpadded beyond.\<close>

definition overflow_seq_ok :: "bytes \<Rightarrow> bool" where
  "overflow_seq_ok s \<longleftrightarrow>
    nonempty_digits s \<and> 6 \<le> length s
    \<and> (if length s = 6 then list_ex (\<lambda>c. c \<noteq> CHR ''0'') s else hd s \<noteq> CHR ''0'')"

definition overflow_id_tail :: "bytes \<Rightarrow> bool" where
  "overflow_id_tail s \<longleftrightarrow>
    (let source = takeWhile (\<lambda>c. c \<noteq> CHR '':'') s in
     slug_pattern source \<and> length source \<le> 128 \<and> length source < length s
     \<and> overflow_seq_ok (drop (Suc (length source)) s))"

definition single_drop :: bytes where
  "single_drop = ''dropped 1 event: pending byte cap exceeded''"

definition plural_drop :: "bytes \<Rightarrow> bool" where
  "plural_drop = between ''dropped '' '' events: pending byte cap exceeded''
     (\<lambda>m. nonempty_digits m \<and> hd m \<noteq> CHR ''0'' \<and> m \<noteq> ''1'')"

definition counted_drop :: "bytes \<Rightarrow> bool" where
  "counted_drop s \<longleftrightarrow>
    between ''dropped '' '' events: pending byte cap exceeded'' nonempty_digits s
    \<or> between ''dropped '' '' event: pending byte cap exceeded'' nonempty_digits s"

definition oversized_drop :: bytes where "oversized_drop = ''dropped an unparseable oversized line''"
definition malformed_drop :: bytes where "malformed_drop = ''dropped an unparseable malformed line''"

definition overflow_keys :: "bytes list" where
  "overflow_keys = [''reason'', ''dropped_ids_known'', ''dropped_count'', ''first_dropped_id'', ''last_dropped_id'',
     ''fingerprint'', ''fingerprint_scope'']"

definition dropped_count :: "(bytes \<times> jval) list \<Rightarrow> int option" where
  "dropped_count d = (case map_of d ''dropped_count'' of Some (JNumber lexeme) \<Rightarrow> json_integer lexeme | _ \<Rightarrow> None)"

definition reason_is :: "(bytes \<times> jval) list \<Rightarrow> bytes list \<Rightarrow> bool" where
  "reason_is d reasons \<longleftrightarrow> string_member d ''reason'' (\<lambda>s. s \<in> set reasons)"

definition overflow_data_ok :: "(bytes \<times> jval) list \<Rightarrow> bool" where
  "overflow_data_ok d \<longleftrightarrow>
    reason_is d [''pending_bytes_exceeded'', ''line_limit_exceeded'', ''malformed_line'']
    \<and> (has_member d ''dropped_count'' \<longrightarrow> (case dropped_count d of Some n \<Rightarrow> 1 \<le> n | None \<Rightarrow> False))
    \<and> optional_string d ''first_dropped_id'' (line_text_ok 256)
    \<and> optional_string d ''last_dropped_id'' (line_text_ok 256)
    \<and> optional_string d ''fingerprint'' (between ''sha256:'' [] lower_hex64)
    \<and> optional_string d ''fingerprint_scope'' (\<lambda>s. s \<in> set [''full'', ''prefix''])
    \<and> members_within d overflow_keys
    \<and> (map_of d ''dropped_ids_known'' = Some (JBool True) \<or> map_of d ''dropped_ids_known'' = Some (JBool False))
    \<and> (if map_of d ''dropped_ids_known'' = Some (JBool True)
       then has_member d ''dropped_count'' \<and> has_member d ''first_dropped_id'' \<and> has_member d ''last_dropped_id''
         \<and> \<not> (has_member d ''fingerprint'' \<or> has_member d ''fingerprint_scope'')
       else has_member d ''fingerprint'' \<and> has_member d ''fingerprint_scope''
         \<and> \<not> (has_member d ''dropped_count'' \<or> has_member d ''first_dropped_id'' \<or> has_member d ''last_dropped_id''))
    \<and> (if reason_is d [''line_limit_exceeded'', ''malformed_line'']
       then map_of d ''dropped_ids_known'' = Some (JBool False)
       else map_of d ''dropped_ids_known'' = Some (JBool True))
    \<and> (string_member d ''fingerprint_scope'' (\<lambda>s. s = ''prefix'') \<longrightarrow> reason_is d [''line_limit_exceeded''])"

text \<open>The coupling of the summary to the data.\<close>

definition overflow_summary_ok :: "(bytes \<times> jval) list \<Rightarrow> bytes \<Rightarrow> bool" where
  "overflow_summary_ok d s \<longleftrightarrow>
    (s = single_drop \<or> plural_drop s \<or> s = oversized_drop \<or> s = malformed_drop)
    \<and> (reason_is d [''pending_bytes_exceeded''] \<longrightarrow> counted_drop s)
    \<and> (reason_is d [''line_limit_exceeded''] \<longrightarrow> s = oversized_drop)
    \<and> (reason_is d [''malformed_line''] \<longrightarrow> s = malformed_drop)
    \<and> (case dropped_count d of
         None \<Rightarrow> True
       | Some n \<Rightarrow> (n = 1 \<longrightarrow> s = single_drop) \<and> (2 \<le> n \<longrightarrow> plural_drop s))"

fun overflow_event_ok :: "jval \<Rightarrow> bool" where
  "overflow_event_ok (JObject obj) =
    (base_event_ok (JObject obj)
     \<and> string_member obj ''id'' (between overflowIDPrefix [] overflow_id_tail)
     \<and> string_member obj ''kind'' (\<lambda>s. s = ''overflow'')
     \<and> string_member obj ''severity'' (\<lambda>s. s = SeverityWarn)
     \<and> (case object_member obj ''data'' of
          None \<Rightarrow> False
        | Some d \<Rightarrow> overflow_data_ok d \<and> string_member obj ''summary'' (overflow_summary_ok d)))"
| "overflow_event_ok _ = False"

text \<open>The validator implements the embedded event schemas.\<close>

definition schemas_implemented :: "('s \<Rightarrow> jval \<Rightarrow> 'v option) \<Rightarrow> 's schemaSet \<Rightarrow> bool" where
  "schemas_implemented validate S \<longleftrightarrow>
     (\<forall>v. (validate (watcherEvent S) v = None \<longleftrightarrow> watcher_event_ok v)
        \<and> (validate (deliveryEvent S) v = None \<longleftrightarrow> base_event_ok v)
        \<and> (validate (gapEvent S) v = None \<longleftrightarrow> gap_event_ok v)
        \<and> (validate (overflowEvent S) v = None \<longleftrightarrow> overflow_event_ok v))"

section \<open>The schema's timestamp is the parser's\<close>

lemma digit_val_digit:
  assumes "is_digit c"
  shows "digit_char (digit_val c) = c" "digit_val c < 10"
proof -
  show lt: "digit_val c < 10"
    using assms by (auto simp: is_digit_def digit_val_def)
  have "bval (digit_char (digit_val c)) = bval c"
    using assms bval_digit_char [OF lt] by (simp add: is_digit_def digit_val_def)
  then show "digit_char (digit_val c) = c" by (simp only: bval_eq_iff)
qed

lemma two_digits_pad: "is_digit a \<Longrightarrow> is_digit b \<Longrightarrow> two_digits a b < 100 \<and> pad_int 2 (two_digits a b) = [a, b]"
proof -
  assume a: "is_digit a" "is_digit b"
  have "two_digits a b div 10 = digit_val a" "two_digits a b mod 10 = digit_val b" "two_digits a b < 100"
    using digit_val_digit(2) [OF a(1)] digit_val_digit(2) [OF a(2)] by (simp_all add: two_digits_def)
  then show ?thesis
    using digit_val_digit(1) a by (simp add: pad_int_2)
qed

lemma pad_int_4_two:
  assumes "is_digit a" "is_digit b" "is_digit c" "is_digit d"
  shows "pad_int 4 (two_digits a b * 100 + two_digits c d) = [a, b, c, d]"
proof -
  define n where "n = two_digits a b * 100 + two_digits c d"
  have "n = (two_digits a b * 10 + digit_val c) * 10 + digit_val d"
    by (simp add: n_def two_digits_def)
  moreover have "(q * 10 + r) div 10 = q" "(q * 10 + r) mod 10 = r" if "r < 10" for q r :: nat
    using that by simp_all
  ultimately have d: "n div 10 = two_digits a b * 10 + digit_val c" "n mod 10 = digit_val d"
    using digit_val_digit(2) [OF assms(4)] by metis+
  have c: "n div 10 div 10 = two_digits a b" "n div 10 mod 10 = digit_val c"
    using digit_val_digit(2) [OF assms(3)] unfolding d by simp_all
  have "pad_int 2 (n div 10 div 10) = [a, b]"
    using two_digits_pad [OF assms(1,2)] by (simp only: c)
  moreover have "pad_int 4 n = pad_int (Suc (Suc 2)) n" by (simp add: eval_nat_numeral)
  ultimately show ?thesis
    using pad_int_Suc [of "Suc 2" n] pad_int_Suc [of 2 "n div 10"] digit_val_digit(1) assms
    unfolding n_def [symmetric] by (simp add: c(2) d(2))
qed

lemma ts_schema_parses: "ts_schema_ok s \<Longrightarrow> \<exists>t. parseTimestamp s = Inr t"
proof (induction s rule: ts_schema_ok.induct)
  case (1 y1 y2 y3 y4 p1 m1 m2 p2 d1 d2 p3 h1 h2 p4 n1 n2 p5 s1 s2 p6)
  let ?t = "\<lparr>t_year = two_digits y1 y2 * 100 + two_digits y3 y4, t_month = two_digits m1 m2,
    t_day = two_digits d1 d2, t_hour = two_digits h1 h2, t_min = two_digits n1 n2,
    t_sec = two_digits s1 s2, t_nsec = 0\<rparr>"
  have "two_digits y1 y2 < 100" "two_digits y3 y4 < 100"
    using 1 two_digits_pad by simp_all
  then have "valid_time ?t"
    using 1 by (simp add: valid_time_def)
  moreover have "time_format tsLayout ?t =
      [y1, y2, y3, y4, p1, m1, m2, p2, d1, d2, p3, h1, h2, p4, n1, n2, p5, s1, s2, p6]"
    using 1 by (simp add: time_format_def tsLayout_def pad_int_4_two two_digits_pad)
  ultimately have "parseTimestamp [y1, y2, y3, y4, p1, m1, m2, p2, d1, d2, p3, h1, h2, p4, n1, n2, p5, s1, s2, p6] = Inr ?t"
    unfolding parseTimestamp_iff by simp
  then show ?case ..
qed simp_all

lemma pad_int_2_digits:
  assumes "n < 100"
  obtains a b where "pad_int 2 n = [a, b]" "is_digit a" "is_digit b" "two_digits a b = n"
  using that [of "digit_char (n div 10)" "digit_char (n mod 10)"] assms by (simp add: pad_int_2 two_digits_def)

lemma pad_int_4_digits:
  assumes "n < 10000"
  obtains a b c d where "pad_int 4 n = [a, b, c, d]" "is_digit a" "is_digit b" "is_digit c" "is_digit d"
    "two_digits a b * 100 + two_digits c d = n"
proof -
  have "n div 100 < 100" "n mod 100 < 100"
    using assms by (simp_all add: less_mult_imp_div_less)
  then obtain a b c d where ab: "is_digit a" "is_digit b" "two_digits a b = n div 100"
    and cd: "is_digit c" "is_digit d" "two_digits c d = n mod 100"
    using pad_int_2_digits by metis
  then have n: "two_digits a b * 100 + two_digits c d = n" by simp
  with pad_int_4_two [OF ab(1,2) cd(1,2)] show ?thesis
    using that ab cd by simp
qed

lemma ts_schema_format:
  assumes "valid_time t"
  shows "ts_schema_ok (time_format tsLayout t)"
proof -
  have b: "t_year t < 10000" "t_month t < 100" "t_day t < 100" "t_hour t < 100" "t_min t < 100" "t_sec t < 100"
    using assms days_in_le [of "t_month t" "t_year t"] by (simp_all add: valid_time_def)
  obtain y1 y2 y3 y4 where y: "pad_int 4 (t_year t) = [y1, y2, y3, y4]" "is_digit y1" "is_digit y2"
    "is_digit y3" "is_digit y4" "two_digits y1 y2 * 100 + two_digits y3 y4 = t_year t"
    by (rule pad_int_4_digits [OF b(1)])
  obtain m1 m2 where m: "pad_int 2 (t_month t) = [m1, m2]" "is_digit m1" "is_digit m2" "two_digits m1 m2 = t_month t"
    by (rule pad_int_2_digits [OF b(2)])
  obtain d1 d2 where d: "pad_int 2 (t_day t) = [d1, d2]" "is_digit d1" "is_digit d2" "two_digits d1 d2 = t_day t"
    by (rule pad_int_2_digits [OF b(3)])
  obtain h1 h2 where h: "pad_int 2 (t_hour t) = [h1, h2]" "is_digit h1" "is_digit h2" "two_digits h1 h2 = t_hour t"
    by (rule pad_int_2_digits [OF b(4)])
  obtain n1 n2 where n: "pad_int 2 (t_min t) = [n1, n2]" "is_digit n1" "is_digit n2" "two_digits n1 n2 = t_min t"
    by (rule pad_int_2_digits [OF b(5)])
  obtain s1 s2 where s: "pad_int 2 (t_sec t) = [s1, s2]" "is_digit s1" "is_digit s2" "two_digits s1 s2 = t_sec t"
    by (rule pad_int_2_digits [OF b(6)])
  show ?thesis
    using assms by (simp add: time_format_def tsLayout_def y m d h n s valid_time_def)
qed

lemma ts_schema_iff: "ts_schema_ok s \<longleftrightarrow> (\<exists>t. parseTimestamp s = Inr t)"
  using ts_schema_parses ts_schema_format by (auto simp: parseTimestamp_iff)

section \<open>The validated object\<close>

lemma string_memberE:
  assumes "string_member obj k p"
  obtains s where "member_string obj k = Some s" "p s"
  using assms by (auto simp: string_member_def split: option.splits)

definition event_of :: "(bytes \<Rightarrow> bytes) \<Rightarrow> (bytes \<times> jval) list \<Rightarrow> bytes \<Rightarrow> gotime \<Rightarrow> event" where
  "event_of sha256 obj i t =
    \<lparr>e_id = i, e_ts = t, e_source = string_or_empty obj ''source'', e_kind = string_or_empty obj ''kind'',
     e_severity = string_or_empty obj ''severity'', e_summary = string_or_empty obj ''summary'',
     e_data = object_member obj ''data'', e_digest = sha256 (canon (JObject obj))\<rparr>"

text \<open>
  The interface between the parse profile and the validator: whatever the validator accepts satisfies
  the shared field rules. Then no extraction step can fail.
\<close>

locale record_schema =
  fixes accepts :: "jval \<Rightarrow> bool"
  assumes base: "accepts v \<Longrightarrow> base_event_ok v"
begin

lemma fields:
  assumes "accepts (JObject obj)"
  obtains i ts source kind severity summary where
    "member_string obj ''id'' = Some i" "line_text_ok 256 i"
    "member_string obj ''ts'' = Some ts" "ts_schema_ok ts"
    "member_string obj ''source'' = Some source" "slug_pattern source" "rune_count source \<le> 128"
    "member_string obj ''kind'' = Some kind" "line_text_ok 128 kind"
    "member_string obj ''severity'' = Some severity" "severity \<in> {SeverityInfo, SeverityWarn, SeverityError}"
    "member_string obj ''summary'' = Some summary" "line_text_ok 512 summary"
proof -
  have ok: "string_member obj ''id'' (line_text_ok 256)" "string_member obj ''ts'' ts_schema_ok"
    "string_member obj ''source'' (\<lambda>s. slug_pattern s \<and> rune_count s \<le> 128)"
    "string_member obj ''kind'' (line_text_ok 128)"
    "string_member obj ''severity'' (\<lambda>s. s \<in> {SeverityInfo, SeverityWarn, SeverityError})"
    "string_member obj ''summary'' (line_text_ok 512)"
    using base [OF assms] by simp_all
  show ?thesis
    by (rule string_memberE [OF ok(1)], rule string_memberE [OF ok(2)], rule string_memberE [OF ok(3)],
        rule string_memberE [OF ok(4)], rule string_memberE [OF ok(5)], rule string_memberE [OF ok(6)])
      (rule that; (assumption | (erule conjunct1) | (erule conjunct2) | simp))
qed

lemma extracts:
  assumes "accepts (JObject obj)" "value_ok (JObject obj)"
  obtains t where "parseTimestamp (string_or_empty obj ''ts'') = Inr t"
    "extract_event sha256 obj i = Inr (event_of sha256 obj i t, summary_warnings (string_or_empty obj ''summary''))"
proof -
  from assms(1) obtain i' ts source kind severity summary where f:
    "member_string obj ''id'' = Some i'" "member_string obj ''ts'' = Some ts" "ts_schema_ok ts"
    "member_string obj ''source'' = Some source" "member_string obj ''kind'' = Some kind"
    "member_string obj ''severity'' = Some severity" "member_string obj ''summary'' = Some summary"
    by (rule fields)
  obtain t where t: "parseTimestamp ts = Inr t"
    using f(3) ts_schema_iff by blast
  show ?thesis
  proof (rule that [of t])
    show "parseTimestamp (string_or_empty obj ''ts'') = Inr t"
      using f(2) t by (simp add: string_or_empty_def)
    show "extract_event sha256 obj i = Inr (event_of sha256 obj i t, summary_warnings (string_or_empty obj ''summary''))"
      using f t assms(2)
      by (simp add: extract_event_def event_of_def assert_string_def string_or_empty_def bind_err_def map_err_def
          CanonicalDigest_def appendCanonical_ok)
  qed
qed

end

interpretation delivery: record_schema base_event_ok
  by unfold_locales simp

lemma watcher_event_base: "watcher_event_ok v \<Longrightarrow> base_event_ok v"
  by (cases v) simp_all

interpretation watcher: record_schema watcher_event_ok
  by unfold_locales (rule watcher_event_base)

lemma service_event_base:
  "gap_event_ok v \<Longrightarrow> base_event_ok v" "overflow_event_ok v \<Longrightarrow> base_event_ok v"
  by (cases v; simp)+

interpretation gap: record_schema gap_event_ok
  by unfold_locales (rule service_event_base)

interpretation overflow: record_schema overflow_event_ok
  by unfold_locales (rule service_event_base)

section \<open>Order of members\<close>

lemma map_of_normal_form:
  assumes "keys_ok ms"
  shows "map_of (sort_members (map (\<lambda>(k, v). (k, normal_form v)) ms)) k = map_option normal_form (map_of ms k)"
proof -
  let ?ns = "map (\<lambda>(k, v). (k, normal_form v)) ms"
  have ok: "keys_ok ?ns"
    using assms by (simp add: keys_ok_map)
  then have "keys_ok (sort_members ?ns)" by simp
  then have "map_of (sort_members ?ns) = map_of ?ns"
    using ok by (simp add: map_of_inject_set keys_ok_def)
  then show ?thesis
    by (simp add: map_of_map)
qed

lemma normal_form_shapes:
  "normal_form v = JString s \<longleftrightarrow> v = JString s"
  "(\<exists>ns. normal_form v = JObject ns) \<longleftrightarrow> (\<exists>ms. v = JObject ms)"
  by (cases v; simp)+

definition normal_members :: "(bytes \<times> jval) list \<Rightarrow> (bytes \<times> jval) list" where
  "normal_members ms = sort_members (map (\<lambda>(k, v). (k, normal_form v)) ms)"

lemma normal_form_JObject: "normal_form (JObject ms) = JObject (normal_members ms)"
  by (simp add: normal_members_def)

lemma member_string_normal: "keys_ok ms \<Longrightarrow> member_string (normal_members ms) k = member_string ms k"
  by (auto simp: member_string_def normal_members_def map_of_normal_form normal_form_shapes
      split: option.split jval.split)

lemma member_string_rules:
  assumes "keys_ok ms"
  shows "string_or_empty (normal_members ms) k = string_or_empty ms k"
    and "string_member (normal_members ms) k p = string_member ms k p"
  by (simp_all add: string_or_empty_def string_member_def member_string_normal [OF assms])

lemma object_member_normal:
  "keys_ok ms \<Longrightarrow> object_member (normal_members ms) k = map_option normal_members (object_member ms k)"
  by (auto simp: object_member_def normal_members_def map_of_normal_form split: option.split jval.split)

lemma base_event_ok_normal: "keys_ok ms \<Longrightarrow> base_event_ok (JObject (normal_members ms)) = base_event_ok (JObject ms)"
  by (simp add: member_string_rules object_member_normal)
    (auto simp: normal_members_def map_of_normal_form list_all_iff)

lemma projection_marker_normal:
  assumes "jval_wf v"
  shows "normal_form v = projection_marker \<longleftrightarrow> v = projection_marker"
proof
  assume "normal_form v = projection_marker"
  then obtain ms where v: "v = JObject ms" and ms: "normal_members ms = [(''$projected'', JBool True)]"
    by (cases v) (auto simp: projection_marker_def normal_members_def)
  have ok: "keys_ok ms" using assms v by (simp add: jval_wf_JObject)
  have "set (map (\<lambda>(k, v). (k, normal_form v)) ms) = {(''$projected'', JBool True)}"
    using ms by (metis normal_members_def set_sort_members list.set(1) list.set(2))
  then have all: "\<forall>(k, w) \<in> set ms. k = ''$projected'' \<and> normal_form w = JBool True" and ne: "ms \<noteq> []"
    by auto
  have "ms = [(''$projected'', JBool True)]"
  proof (cases ms)
    case (Cons p ms')
    then have "ms' = []"
      using all ok by (cases ms') (auto simp: keys_ok_def)
    moreover obtain k w where "p = (k, w)" by (cases p)
    ultimately show ?thesis
      using all Cons by (cases w) auto
  qed (use ne in simp)
  then show "v = projection_marker" by (simp add: v projection_marker_def)
next
  assume "v = projection_marker"
  then show "normal_form v = projection_marker"
    by (simp add: projection_marker_def sort_members_def sortFunc_def)
qed

lemma watcher_event_ok_normal:
  assumes "jval_wf (JObject ms)"
  shows "watcher_event_ok (JObject (normal_members ms)) = watcher_event_ok (JObject ms)"
proof -
  have ok: "keys_ok ms" using assms by (simp add: jval_wf_JObject)
  have "map_of (normal_members ms) ''data'' = Some projection_marker \<longleftrightarrow> map_of ms ''data'' = Some projection_marker"
    using projection_marker_normal jval_wf_JObjectD [OF assms map_of_SomeD]
    by (auto simp: normal_members_def map_of_normal_form [OF ok])
  then show ?thesis
    using base_event_ok_normal [OF ok] by (simp only: watcher_event_ok.simps member_string_rules [OF ok])
qed

text \<open>The service records ask of their data only what a lookup shows.\<close>

lemma normal_form_atoms:
  "normal_form v = JNull \<longleftrightarrow> v = JNull" "normal_form v = JBool b \<longleftrightarrow> v = JBool b" "normal_form v = JNumber n \<longleftrightarrow> v = JNumber n"
  by (cases v; simp)+

lemma map_of_normal: "keys_ok ms \<Longrightarrow> map_of (normal_members ms) k = map_option normal_form (map_of ms k)"
  by (simp add: normal_members_def map_of_normal_form)

lemma member_rules:
  assumes "keys_ok d"
  shows "has_member (normal_members d) k = has_member d k"
    and "optional_string (normal_members d) k p = optional_string d k p"
    and "members_within (normal_members d) ks = members_within d ks"
    and "reason_is (normal_members d) reasons = reason_is d reasons"
    and "map_of (normal_members d) k = Some JNull \<longleftrightarrow> map_of d k = Some JNull"
    and "map_of (normal_members d) k = Some (JBool b) \<longleftrightarrow> map_of d k = Some (JBool b)"
    and "dropped_count (normal_members d) = dropped_count d"
proof -
  show h: "has_member (normal_members d) k = has_member d k"
    by (simp add: has_member_def map_of_normal [OF assms] split: option.split)
  show "optional_string (normal_members d) k p = optional_string d k p"
    by (simp add: optional_string_def h member_string_rules [OF assms])
  show "members_within (normal_members d) ks = members_within d ks"
    by (auto simp: members_within_def normal_members_def list_all_iff)
  show "reason_is (normal_members d) reasons = reason_is d reasons"
    by (simp add: reason_is_def member_string_rules [OF assms])
  show "map_of (normal_members d) k = Some JNull \<longleftrightarrow> map_of d k = Some JNull"
    "map_of (normal_members d) k = Some (JBool b) \<longleftrightarrow> map_of d k = Some (JBool b)"
    by (auto simp: map_of_normal [OF assms] normal_form_atoms)
  show "dropped_count (normal_members d) = dropped_count d"
    by (auto simp: dropped_count_def map_of_normal [OF assms] normal_form_atoms split: option.split jval.split)
qed

lemma service_data_normal:
  assumes "keys_ok obj" "keys_ok d"
  shows "gap_data_ok (normal_members d) = gap_data_ok d"
    "gap_retained (normal_members obj) (normal_members d) = gap_retained obj d"
    "gap_emptied (normal_members obj) (normal_members d) = gap_emptied obj d"
    "overflow_data_ok (normal_members d) = overflow_data_ok d"
    "overflow_summary_ok (normal_members d) s = overflow_summary_ok d s"
  by (simp_all only: gap_data_ok_def gap_retained_def gap_emptied_def overflow_data_ok_def overflow_summary_ok_def
      member_rules [OF assms(2)] member_string_rules [OF assms(1)] member_string_rules [OF assms(2)])

lemma service_event_ok_normal:
  assumes "jval_wf (JObject ms)"
  shows "gap_event_ok (JObject (normal_members ms)) = gap_event_ok (JObject ms)"
    and "overflow_event_ok (JObject (normal_members ms)) = overflow_event_ok (JObject ms)"
proof -
  have ok: "keys_ok ms" using assms by (simp add: jval_wf_JObject)
  have d: "keys_ok d" if "object_member ms ''data'' = Some d" for d
    using that jval_wf_JObjectD [OF assms map_of_SomeD, of "''data''"]
    by (auto simp: object_member_def jval_wf_JObject split: option.splits jval.splits)
  have "string_member (normal_members ms) ''summary'' (overflow_summary_ok (normal_members d))
      = string_member ms ''summary'' (overflow_summary_ok d)" if "object_member ms ''data'' = Some d" for d
    unfolding member_string_rules [OF ok] using service_data_normal(5) [OF ok d [OF that]] by presburger
  then show "gap_event_ok (JObject (normal_members ms)) = gap_event_ok (JObject ms)"
    "overflow_event_ok (JObject (normal_members ms)) = overflow_event_ok (JObject ms)"
    using base_event_ok_normal [OF ok] service_data_normal [OF ok d]
    by (auto simp: object_member_normal [OF ok] member_string_rules [OF ok]
        simp del: base_event_ok.simps split: option.split)
qed

end
