(* ===== verification/Event_Parse.thy ===== *)
theory Event_Parse
  imports Event_Schema
begin

text \<open>
  What \<open>ParseEventLine\<close> of \<open>internal/contract/event.go\<close> guarantees, with a validator that implements the event
  schemas: exactly which lines each stream accepts, what an accepted event satisfies, when two lines get
  the same digest, and that an accepted record parses again from its canonical text. The reference
  validator and the sample lines are for the witnesses.
\<close>

section \<open>What \<open>ParseEventLine\<close> returns\<close>

lemma profileSchema_base:
  assumes "schemas_implemented validate S" "profileSchema S profile i = Inr schema" "validate schema v = None"
  shows "base_event_ok v"
  using assms watcher_event_base service_event_base
  by (auto simp: schemas_implemented_def profileSchema_def split: if_split_asm)

lemma profileSchema_no_panic: "profileSchema S profile i \<noteq> Inl (TypeAssertionPanic k)"
  by (simp add: profileSchema_def)

text \<open>The accepting run, inverted: every check that was passed.\<close>

lemma ParseEventLine_InrE:
  fixes validate :: "'s \<Rightarrow> jval \<Rightarrow> 'v option"
  assumes "schemas_implemented validate S" "ParseEventLine validate S sha256 line m profile = Inr (e, ws)"
  obtains obj schema t where
    "int (length line) \<le> effective_max m" "CHR 0x0A \<notin> set (trim_newline line)"
    "decodeStrict (trim_newline line) = Inr (JObject obj)"
    "profileSchema S profile (string_or_empty obj ''id'') = (Inr schema :: 'v event_error + 's)" "validate schema (JObject obj) = None"
    "base_event_ok (JObject obj)" "parseTimestamp (string_or_empty obj ''ts'') = Inr t"
    "e = event_of sha256 obj (string_or_empty obj ''id'') t"
    "ws = summary_warnings (string_or_empty obj ''summary'')"
proof -
  obtain obj schema where o:
    "int (length line) \<le> effective_max m" "CHR 0x0A \<notin> set (trim_newline line)"
    "decodeStrict (trim_newline line) = Inr (JObject obj)"
    "profileSchema S profile (string_or_empty obj ''id'') = (Inr schema :: 'v event_error + 's)" "validate schema (JObject obj) = None"
    "extract_event sha256 obj (string_or_empty obj ''id'') = (Inr (e, ws) :: 'v event_error + _)"
    using assms(2)
    by (auto simp: ParseEventLine_def bind_err_def split: if_split_asm sum.split_asm jval.split_asm option.split_asm)
  have b: "base_event_ok (JObject obj)"
    using assms(1) o(4,5) by (rule profileSchema_base)
  obtain t where "parseTimestamp (string_or_empty obj ''ts'') = Inr t"
    "extract_event sha256 obj (string_or_empty obj ''id'')
      = (Inr (event_of sha256 obj (string_or_empty obj ''id'') t, summary_warnings (string_or_empty obj ''summary'')) :: 'v event_error + _)"
    using delivery.extracts [OF b decodeStrict_ok [OF o(3)]] by metis
  with o b show ?thesis
    by (intro that [of obj schema t]) simp_all
qed

lemma ParseEventLine_accept:
  fixes validate :: "'s \<Rightarrow> jval \<Rightarrow> 'v option"
  assumes "schemas_implemented validate S"
    and "int (length line) \<le> effective_max m" "CHR 0x0A \<notin> set (trim_newline line)"
    and "decodeStrict (trim_newline line) = Inr (JObject obj)"
    and "profileSchema S profile (string_or_empty obj ''id'') = (Inr schema :: 'v event_error + 's)" "validate schema (JObject obj) = None"
  obtains t where "parseTimestamp (string_or_empty obj ''ts'') = Inr t"
    "ParseEventLine validate S sha256 line m profile =
      Inr (event_of sha256 obj (string_or_empty obj ''id'') t, summary_warnings (string_or_empty obj ''summary''))"
proof -
  have "base_event_ok (JObject obj)"
    using assms(1,5,6) by (rule profileSchema_base)
  then obtain t where "parseTimestamp (string_or_empty obj ''ts'') = Inr t"
    "extract_event sha256 obj (string_or_empty obj ''id'')
      = (Inr (event_of sha256 obj (string_or_empty obj ''id'') t, summary_warnings (string_or_empty obj ''summary'')) :: 'v event_error + _)"
    using delivery.extracts decodeStrict_ok [OF assms(4)] by metis
  then show ?thesis
    using assms(2-6) by (intro that [of t]) (simp_all add: ParseEventLine_def bind_err_def)
qed

section \<open>A canonical record is the same event\<close>

text \<open>
  The records of a stream, without reference to how the code picks a schema: ordinary events as a watcher
  may write them (in delivery output also projected), overflow records once the service has spooled them,
  gaps in delivery output alone.
\<close>

definition ordinary :: "jval \<Rightarrow> bool" where
  "ordinary v \<longleftrightarrow> (case v of JObject obj \<Rightarrow> \<not> prefix SyntheticIDPrefix (string_or_empty obj ''id'') | _ \<Rightarrow> False)"

definition stream_record_ok :: "profile \<Rightarrow> jval \<Rightarrow> bool" where
  "stream_record_ok profile v \<longleftrightarrow>
    profile = WatcherInput \<and> watcher_event_ok v
    \<or> profile = SpoolRecord \<and> (watcher_event_ok v \<or> overflow_event_ok v)
    \<or> profile = DeliveryRecord \<and> (ordinary v \<and> base_event_ok v \<or> overflow_event_ok v \<or> gap_event_ok v)"

lemma between_empty: "between pre [] p s \<longleftrightarrow> prefix pre s \<and> p (drop (length pre) s)"
  by (auto simp: between_def strip_literals_def prefix_def)

lemma service_ids:
  "overflow_event_ok (JObject obj) \<Longrightarrow> prefix overflowIDPrefix (string_or_empty obj ''id'')"
  "gap_event_ok (JObject obj) \<Longrightarrow> prefix gapIDPrefix (string_or_empty obj ''id'')"
  "watcher_event_ok (JObject obj) \<Longrightarrow> \<not> prefix SyntheticIDPrefix (string_or_empty obj ''id'')"
  by (auto simp: string_member_def string_or_empty_def between_empty split: option.splits)

lemma service_prefixes:
  "prefix overflowIDPrefix i \<Longrightarrow> prefix SyntheticIDPrefix i" "prefix gapIDPrefix i \<Longrightarrow> prefix SyntheticIDPrefix i"
  "prefix overflowIDPrefix i \<Longrightarrow> \<not> prefix gapIDPrefix i"
  by (auto simp: overflowIDPrefix_def gapIDPrefix_def prefix_def)

lemma profiles_distinct: "WatcherInput \<noteq> SpoolRecord" "WatcherInput \<noteq> DeliveryRecord" "SpoolRecord \<noteq> DeliveryRecord"
  by (simp_all add: WatcherInput_def SpoolRecord_def DeliveryRecord_def)

lemma profileSchema_stream:
  assumes "schemas_implemented validate S"
  shows "(\<exists>schema. profileSchema S profile (string_or_empty obj ''id'') = (Inr schema :: 'v event_error + 's)
      \<and> validate schema (JObject obj) = None) \<longleftrightarrow> stream_record_ok profile (JObject obj)"
proof -
  have v: "validate (watcherEvent S) u = None \<longleftrightarrow> watcher_event_ok u" "validate (deliveryEvent S) u = None \<longleftrightarrow> base_event_ok u"
    "validate (gapEvent S) u = None \<longleftrightarrow> gap_event_ok u" "validate (overflowEvent S) u = None \<longleftrightarrow> overflow_event_ok u" for u
    using assms by (simp_all only: schemas_implemented_def)
  show ?thesis
    using service_ids [of obj] service_prefixes [of "string_or_empty obj ''id''"] profiles_distinct
    by (auto simp: profileSchema_def stream_record_ok_def ordinary_def v
        simp del: watcher_event_ok.simps base_event_ok.simps gap_event_ok.simps overflow_event_ok.simps split: if_split_asm)
qed

lemma accepted_line_iff:
  fixes validate :: "'s \<Rightarrow> jval \<Rightarrow> 'v option"
  assumes "schemas_implemented validate S"
  shows "(\<exists>e ws. ParseEventLine validate S sha256 line m profile = Inr (e, ws)) \<longleftrightarrow>
    int (length line) \<le> effective_max m \<and> CHR 0x0A \<notin> set (trim_newline line)
    \<and> (\<exists>v. decodeStrict (trim_newline line) = Inr v \<and> stream_record_ok profile v)"
    (is "?l \<longleftrightarrow> ?r")
proof
  assume ?l
  then obtain e ws where "ParseEventLine validate S sha256 line m profile = Inr (e, ws)" by blast
  then obtain obj schema where o:
    "int (length line) \<le> effective_max m" "CHR 0x0A \<notin> set (trim_newline line)"
    "decodeStrict (trim_newline line) = Inr (JObject obj)"
    "profileSchema S profile (string_or_empty obj ''id'') = (Inr schema :: 'v event_error + 's)"
    "validate schema (JObject obj) = None"
    by (rule ParseEventLine_InrE [OF assms])
  then have "stream_record_ok profile (JObject obj)"
    using profileSchema_stream [OF assms, of profile obj, where 'v = 'v] by blast
  then show ?r using o by blast
next
  assume ?r
  then obtain v where v: "int (length line) \<le> effective_max m" "CHR 0x0A \<notin> set (trim_newline line)"
    "decodeStrict (trim_newline line) = Inr v" "stream_record_ok profile v" by blast
  then obtain obj where obj: "v = JObject obj"
    using watcher_event_base service_event_base by (cases v) (auto simp: stream_record_ok_def)
  then obtain schema where "profileSchema S profile (string_or_empty obj ''id'') = (Inr schema :: 'v event_error + 's)"
    "validate schema (JObject obj) = None"
    using profileSchema_stream [OF assms, of profile obj, where 'v = 'v] v(4) by blast
  then show ?l
    using ParseEventLine_accept [OF assms v(1,2)] v(3) obj by metis
qed

lemma trim_newline_snoc [simp]: "trim_newline (s @ [CHR 0x0A]) = s"
  by (simp add: trim_newline_def)



section \<open>Properties\<close>

text \<open>
  C36. The parse profile is total: with a validator that implements the embedded schemas, no line, bound
  or profile makes a type assertion fail, and no accepted-looking timestamp or digest step fails
  after validation either.
\<close>

theorem ParseEventLine_no_panic:
  assumes "schemas_implemented validate S"
  shows "ParseEventLine validate S sha256 line m profile \<noteq> Inl (TypeAssertionPanic k)
    \<and> ParseEventLine validate S sha256 line m profile \<noteq> Inl (BadTimestamp te)
    \<and> ParseEventLine validate S sha256 line m profile \<noteq> Inl (DigestFailed ce)"
proof -
  let ?bad = "{TypeAssertionPanic k, BadTimestamp te, DigestFailed ce}"
  have "e \<notin> ?bad" if run: "ParseEventLine validate S sha256 line m profile = Inl e" for e
  proof
    assume e: "e \<in> ?bad"
    obtain obj schema where o: "decodeStrict (trim_newline line) = Inr (JObject obj)"
      "profileSchema S profile (string_or_empty obj ''id'') = Inr schema" "validate schema (JObject obj) = None"
      "extract_event sha256 obj (string_or_empty obj ''id'') = Inl e"
      using run e by (auto simp: ParseEventLine_def bind_err_def profileSchema_def
          split: if_split_asm sum.split_asm jval.split_asm option.split_asm)
    have "base_event_ok (JObject obj)"
      using assms o(2,3) by (rule profileSchema_base)
    then show False
      using delivery.extracts [OF _ decodeStrict_ok [OF o(1)]] o(4) by (metis sum.simps(4))
  qed
  then show ?thesis by blast
qed

text \<open>A validator that does exactly what the hypothesis says, on schemas named by their URL.\<close>

definition reference_validate :: "bytes \<Rightarrow> jval \<Rightarrow> unit option" where
  "reference_validate url v =
    (if (if url = eventURL then watcher_event_ok v
         else if url = eventURL @ ''#/$defs/gapEvent'' then gap_event_ok v
         else if url = eventURL @ ''#/$defs/overflowEvent'' then overflow_event_ok v
         else base_event_ok v) then None else Some ())"

definition reference_schemas :: "bytes schemaSet" where
  "reference_schemas = compiledSchemas (\<lambda>url. url)"

lemma reference_implements: "schemas_implemented reference_validate reference_schemas"
  by (simp add: schemas_implemented_def reference_schemas_def compiledSchemas_def reference_validate_def)

definition sample_line :: bytes where
  "sample_line = ''{\"id\":\"ci-1\",\"ts\":\"2024-02-29T23:59:59Z\",\"source\":\"ci\",\"kind\":\"run\",\"severity\":\"info\",\"summary\":\"ok\"}''"

definition sample_object :: "(bytes \<times> jval) list" where
  "sample_object = [(''id'', JString ''ci-1''), (''ts'', JString ''2024-02-29T23:59:59Z''), (''source'', JString ''ci''),
     (''kind'', JString ''run''), (''severity'', JString ''info''), (''summary'', JString ''ok'')]"

lemma sample_line_decodes: "decodeStrict sample_line = Inr (JObject sample_object)"
  by (simp add: json_eval sample_line_def sample_object_def)

lemma sample_line_plain: "trim_newline sample_line = sample_line" "CHR 0x0A \<notin> set sample_line" "length sample_line \<le> 262144"
  by (simp_all add: sample_line_def trim_newline_def)

theorem ParseEventLine_no_panic_witness:
  "ParseEventLine reference_validate reference_schemas rev sample_line 0 DeliveryRecord
    \<noteq> Inl (TypeAssertionPanic ''ts'')"
  using ParseEventLine_no_panic [OF reference_implements] by blast

lemma line_text_ok_ascii:
  "list_all (\<lambda>c. 32 \<le> bval c \<and> bval c < 127) s \<Longrightarrow> s \<noteq> [] \<Longrightarrow> length s \<le> bound \<Longrightarrow> line_text_ok bound s"
proof -
  assume s: "list_all (\<lambda>c. 32 \<le> bval c \<and> bval c < 127) s" "s \<noteq> []" "length s \<le> bound"
  then have "runes s = map bval s"
    using ascii_valid [of s] by (fastforce simp: list_all_iff)
  then show ?thesis
    using s by (cases s) (auto simp: line_text_ok_def rune_count_def list_all_iff control_rune_def)
qed

lemma sample_base: "base_event_ok (JObject sample_object)"
  by (simp add: sample_object_def string_member_def member_string_def object_member_def line_text_ok_ascii
      event_keys_def SeverityInfo_def slug_first_def slug_rest_def rune_count_def ascii_valid
      is_digit_def two_digits_def digit_val_def days_in_def leap_year_def)

lemma sample_watcher: "watcher_event_ok (JObject sample_object)"
proof -
  have "\<not> prefix SyntheticIDPrefix (string_or_empty sample_object ''id'')" "map_of sample_object ''data'' = None"
    by (simp_all add: sample_object_def string_or_empty_def member_string_def SyntheticIDPrefix_def)
  then show ?thesis using sample_base by (simp del: base_event_ok.simps)
qed

lemma effective_max_default [simp]: "effective_max 0 = 262144"
  by (simp add: effective_max_def DefaultMaxEventBytes_def)

section \<open>Text without escapes\<close>

text \<open>Printable ASCII without quotes and backslashes is its own JSON encoding.\<close>

definition plain_char :: "char \<Rightarrow> bool" where
  "plain_char c \<longleftrightarrow> 32 \<le> bval c \<and> bval c < 127 \<and> c \<noteq> CHR 0x22 \<and> c \<noteq> CHR 0x5C"

definition plain_text :: "bytes \<Rightarrow> bool" where
  "plain_text s \<longleftrightarrow> list_all plain_char s"

lemma plain_text_simps [simp]: "plain_text []" "plain_text (c # s) \<longleftrightarrow> plain_char c \<and> plain_text s"
  "plain_text (s @ t) \<longleftrightarrow> plain_text s \<and> plain_text t"
  by (simp_all add: plain_text_def)

lemma plain_text_ascii: "plain_text s \<Longrightarrow> utf8_valid s \<and> runes s = map bval s"
  unfolding plain_text_def by (rule ascii_valid, erule list.pred_mono_strong) (simp add: plain_char_def)

lemma qstring_plain:
  assumes "plain_text s"
  shows "qstring s = CHR 0x22 # s @ [CHR 0x22]"
proof -
  have "esc_rune (bval c) = [c]" if "plain_char c" for c
    using that by (auto simp: plain_char_def esc_rune_def appendAscii_def)
  then have "concat (map (\<lambda>c. esc_rune (bval c)) s) = s"
    using assms by (induction s) (simp_all add: plain_text_def)
  then show ?thesis
    using plain_text_ascii [OF assms] by (simp add: qstring_def escape_def comp_def)
qed

lemma plain_line_text: "plain_text s \<Longrightarrow> s \<noteq> [] \<Longrightarrow> length s \<le> bound \<Longrightarrow> line_text_ok bound s"
  unfolding plain_text_def by (rule line_text_ok_ascii, erule list.pred_mono_strong) (simp_all add: plain_char_def)

text \<open>The overflow record of \<open>fixtures/synthetic/overflow-single.jsonl\<close>.\<close>

definition overflow_data :: "(bytes \<times> jval) list" where
  "overflow_data = [(''reason'', JString ''pending_bytes_exceeded''), (''dropped_ids_known'', JBool True),
     (''dropped_count'', JNumber ''1''), (''first_dropped_id'', JString ''ci-103''), (''last_dropped_id'', JString ''ci-103'')]"

definition overflow_object :: "(bytes \<times> jval) list" where
  "overflow_object = [(''id'', JString ''agent-signals:synthetic:overflow:ci-status:000003''),
     (''ts'', JString ''2026-08-24T09:12:03Z''), (''source'', JString ''ci-status''), (''kind'', JString ''overflow''),
     (''severity'', JString ''warn''), (''summary'', JString single_drop), (''data'', JObject overflow_data)]"

definition overflow_line :: bytes where
  "overflow_line = render (JObject overflow_object) @ [CHR 0x0A]"

lemma overflow_object_wf: "jval_wf (JObject overflow_object)" "jdepth (JObject overflow_object) \<le> MaxDepth"
  by (simp_all add: overflow_object_def overflow_data_def single_drop_def jval_wf.simps(6) jdepth.simps MaxDepth_def
      json_number_def scan_number_def scan_unsigned_def scan_digits_def scan_fraction_def scan_exponent_def is_digit_def)

lemma overflow_line_decodes:
  "decodeStrict (trim_newline overflow_line) = Inr (JObject overflow_object)" "CHR 0x0A \<notin> set (trim_newline overflow_line)"
  "int (length overflow_line) \<le> effective_max 0"
proof -
  show "decodeStrict (trim_newline overflow_line) = Inr (JObject overflow_object)"
    unfolding overflow_line_def trim_newline_snoc decodeStrict_render [OF overflow_object_wf(1)]
    using overflow_object_wf(2) by (simp only: if_True)
  show "CHR 0x0A \<notin> set (trim_newline overflow_line)"
    using one_line_no_LF [OF one_line_render [OF overflow_object_wf(1)]] by (simp only: overflow_line_def trim_newline_snoc not_False_eq_True)
  show "int (length overflow_line) \<le> effective_max 0"
    by (simp add: overflow_line_def overflow_object_def overflow_data_def single_drop_def qstring_plain plain_char_def)
qed

lemma sample_run:
  assumes "profile \<in> {WatcherInput, SpoolRecord}"
  shows "\<exists>t. ParseEventLine reference_validate reference_schemas sha256 sample_line 0 profile
    = Inr (event_of sha256 sample_object ''ci-1'' t, [])"
proof -
  have i: "string_or_empty sample_object ''id'' = ''ci-1''" "string_or_empty sample_object ''summary'' = ''ok''"
    by (simp_all add: sample_object_def string_or_empty_def member_string_def)
  have s: "profileSchema reference_schemas profile (string_or_empty sample_object ''id'') =
      (Inr (watcherEvent reference_schemas) :: unit event_error + _)"
    using assms by (auto simp: i profileSchema_def SyntheticIDPrefix_def WatcherInput_def DeliveryRecord_def SpoolRecord_def)
  have v: "reference_validate (watcherEvent reference_schemas) (JObject sample_object) = None"
    using reference_implements sample_watcher by (simp only: schemas_implemented_def)
  have d: "int (length sample_line) \<le> effective_max 0" "CHR 0x0A \<notin> set (trim_newline sample_line)"
    "decodeStrict (trim_newline sample_line) = Inr (JObject sample_object)"
    using sample_line_plain sample_line_decodes by simp_all
  have w: "summary_warnings (string_or_empty sample_object ''summary'') = []"
    by (simp add: i summary_warnings_def summaryTargetRunes_def rune_count_def ascii_valid)
  show ?thesis
    by (rule ParseEventLine_accept [OF reference_implements d s v, of sha256]) (rule exI, simp only: i w [unfolded i])
qed

lemma sample_overflow_id: "prefix SyntheticIDPrefix (string_or_empty overflow_object ''id'')"
  by (simp add: overflow_object_def string_or_empty_def member_string_def SyntheticIDPrefix_def)

lemma sample_overflow: "overflow_event_ok (JObject overflow_object)"
proof -
  have base: "base_event_ok (JObject overflow_object)"
    by (simp add: overflow_object_def single_drop_def string_member_def member_string_def object_member_def line_text_ok_ascii
        event_keys_def SeverityWarn_def slug_first_def slug_rest_def rune_count_def ascii_valid
        is_digit_def two_digits_def digit_val_def days_in_def)
  have id: "string_member overflow_object ''id'' (between overflowIDPrefix [] overflow_id_tail)"
    by (simp add: overflow_object_def string_member_def member_string_def between_empty overflowIDPrefix_def SyntheticIDPrefix_def
        overflow_id_tail_def overflow_seq_ok_def nonempty_digits_def is_digit_def slug_first_def slug_rest_def)
  have data: "overflow_data_ok overflow_data" "overflow_summary_ok overflow_data single_drop"
    by (simp_all add: overflow_data_ok_def overflow_summary_ok_def overflow_data_def reason_is_def has_member_def optional_string_def
        members_within_def overflow_keys_def string_member_def member_string_def dropped_count_def line_text_ok_ascii
        json_integer_def parse_digits_def scaled_integer_def is_digit_def digit_val_def counted_drop_def between_def
        strip_literals_def single_drop_def nonempty_digits_def suffix_def)
  have fields: "string_member overflow_object ''kind'' (\<lambda>s. s = ''overflow'')" "string_member overflow_object ''severity'' (\<lambda>s. s = SeverityWarn)"
    "object_member overflow_object ''data'' = Some overflow_data" "string_member overflow_object ''summary'' (overflow_summary_ok overflow_data)"
    using data(2) by (simp_all add: overflow_object_def string_member_def member_string_def object_member_def SeverityWarn_def)
  show ?thesis
    using base id data(1) fields by (simp only: overflow_event_ok.simps option.case simp_thms)
qed

lemma overflow_accepted: "\<exists>e ws. ParseEventLine reference_validate reference_schemas rev overflow_line 0 SpoolRecord = Inr (e, ws)"
  unfolding accepted_line_iff [OF reference_implements]
  using overflow_line_decodes sample_overflow by (auto simp: stream_record_ok_def simp del: overflow_event_ok.simps)

text \<open>
  C8. Exactly which lines a stream accepts: those within the byte bound, of one line, that decode strictly
  to a record of the stream. No later step rejects such a line and no earlier step lets anything else
  through.
\<close>

theorem ParseEventLine_stream_iff:
  fixes validate :: "'s \<Rightarrow> jval \<Rightarrow> 'v option"
  assumes "schemas_implemented validate S"
  shows "(\<exists>e ws. ParseEventLine validate S sha256 line m profile = Inr (e, ws)) \<longleftrightarrow>
    int (length line) \<le> effective_max m \<and> CHR 0x0A \<notin> set (trim_newline line)
    \<and> (\<exists>v. decodeStrict (trim_newline line) = Inr v \<and> stream_record_ok profile v)"
  by (rule accepted_line_iff [OF assms])

theorem ParseEventLine_stream_iff_witness:
  "(\<exists>e ws. ParseEventLine reference_validate reference_schemas rev overflow_line 0 SpoolRecord = Inr (e, ws))
    \<and> \<not> (\<exists>e ws. ParseEventLine reference_validate reference_schemas rev overflow_line 0 WatcherInput = Inr (e, ws))"
  unfolding ParseEventLine_stream_iff [OF reference_implements]
  using overflow_line_decodes sample_overflow service_ids(3) [of overflow_object] sample_overflow_id profiles_distinct
  by (auto simp: stream_record_ok_def simp del: watcher_event_ok.simps overflow_event_ok.simps)

corollary ParseEventLine_watcher_iff:
  fixes validate :: "'s \<Rightarrow> jval \<Rightarrow> 'v option"
  assumes "schemas_implemented validate S"
  shows "(\<exists>e ws. ParseEventLine validate S sha256 line m WatcherInput = Inr (e, ws)) \<longleftrightarrow>
    int (length line) \<le> effective_max m \<and> CHR 0x0A \<notin> set (trim_newline line)
    \<and> (\<exists>v. decodeStrict (trim_newline line) = Inr v \<and> watcher_event_ok v)"
  unfolding accepted_line_iff [OF assms] using profiles_distinct by (auto simp: stream_record_ok_def)

text \<open>
  C11. What an accepted line guarantees, in every stream: the line is within the bound, the ID, kind and
  summary are bounded, non-empty and free of control characters and line separators, the source is a
  valid slug, the severity is one of the three, the timestamp is calendar-valid with whole seconds,
  and there is a warning exactly when the summary is above the lint target.
\<close>

theorem ParseEventLine_sound:
  assumes "schemas_implemented validate S" "ParseEventLine validate S sha256 line m profile = Inr (e, ws)"
  shows "int (length line) \<le> effective_max m \<and> line_text_ok 256 (e_id e) \<and> line_text_ok 128 (e_kind e)
    \<and> line_text_ok 512 (e_summary e) \<and> validate_slug ''source'' (e_source e) = None
    \<and> e_severity e \<in> {SeverityInfo, SeverityWarn, SeverityError}
    \<and> valid_time (e_ts e) \<and> t_nsec (e_ts e) = 0 \<and> (ws = [] \<longleftrightarrow> rune_count (e_summary e) \<le> 120)"
proof -
  obtain obj t where o: "int (length line) \<le> effective_max m" "base_event_ok (JObject obj)"
    "parseTimestamp (string_or_empty obj ''ts'') = Inr t"
    "e = event_of sha256 obj (string_or_empty obj ''id'') t"
    "ws = summary_warnings (string_or_empty obj ''summary'')"
    by (rule ParseEventLine_InrE [OF assms])
  obtain i ts source kind severity summary where f:
    "member_string obj ''id'' = Some i" "line_text_ok 256 i"
    "member_string obj ''source'' = Some source" "slug_pattern source" "rune_count source \<le> 128"
    "member_string obj ''kind'' = Some kind" "line_text_ok 128 kind"
    "member_string obj ''severity'' = Some severity" "severity \<in> {SeverityInfo, SeverityWarn, SeverityError}"
    "member_string obj ''summary'' = Some summary" "line_text_ok 512 summary"
    by (rule delivery.fields [OF o(2)])
  have "validate_slug ''source'' source = None"
    using f(4,5) by (auto simp: validate_slug_def MaxSlugLen_def)
  then show ?thesis
    using o f parseTimestamp_iff [of _ t]
    by (simp add: event_of_def string_or_empty_def summary_warnings_def summaryTargetRunes_def)
qed

theorem ParseEventLine_sound_witness:
  "\<exists>e. line_text_ok 256 (e_id e) \<and> validate_slug ''source'' (e_source e) = None
    \<and> ParseEventLine reference_validate reference_schemas rev sample_line 0 SpoolRecord = Inr (e, [])"
proof -
  obtain t where run:
    "ParseEventLine reference_validate reference_schemas rev sample_line 0 SpoolRecord
      = Inr (event_of rev sample_object ''ci-1'' t, [])"
    using sample_run [of SpoolRecord rev] by (auto simp: SpoolRecord_def)
  from ParseEventLine_sound [OF reference_implements run] run show ?thesis by blast
qed

text \<open>
  C12. Which records a stream admits. An unknown profile accepts nothing. An accepted ID with the reserved
  prefix is that of an overflow record in a spool or in delivery output, or of a gap in delivery output
  only, and the event then has the kind and the severity of such a record; watcher input never carries one.
\<close>

theorem ParseEventLine_admission:
  fixes validate :: "'s \<Rightarrow> jval \<Rightarrow> 'v option"
  assumes "schemas_implemented validate S" "ParseEventLine validate S sha256 line m profile = Inr (e, ws)"
  shows "(profile = WatcherInput \<or> profile = SpoolRecord \<or> profile = DeliveryRecord)
    \<and> (prefix SyntheticIDPrefix (e_id e) \<longrightarrow> e_severity e = SeverityWarn \<and>
        ((profile = SpoolRecord \<or> profile = DeliveryRecord) \<and> prefix overflowIDPrefix (e_id e) \<and> e_kind e = ''overflow''
        \<or> profile = DeliveryRecord \<and> prefix gapIDPrefix (e_id e) \<and> e_kind e = ''gap''))"
proof -
  obtain obj schema t where o:
    "profileSchema S profile (string_or_empty obj ''id'') = (Inr schema :: 'v event_error + 's)" "validate schema (JObject obj) = None"
    "e = event_of sha256 obj (string_or_empty obj ''id'') t"
    by (rule ParseEventLine_InrE [OF assms])
  then have r: "stream_record_ok profile (JObject obj)"
    using profileSchema_stream [OF assms(1), of profile obj, where 'v = 'v] by blast
  have e: "e_id e = string_or_empty obj ''id''" "e_kind e = string_or_empty obj ''kind''" "e_severity e = string_or_empty obj ''severity''"
    by (simp_all add: o(3) event_of_def)
  have kinds: "overflow_event_ok (JObject obj) \<Longrightarrow> e_kind e = ''overflow'' \<and> e_severity e = SeverityWarn"
    "gap_event_ok (JObject obj) \<Longrightarrow> e_kind e = ''gap'' \<and> e_severity e = SeverityWarn"
    by (auto simp: e string_member_def string_or_empty_def split: option.splits)
  show ?thesis
    using r kinds service_ids [of obj]
    by (auto simp: stream_record_ok_def ordinary_def e(1)
        simp del: watcher_event_ok.simps base_event_ok.simps gap_event_ok.simps overflow_event_ok.simps)
qed

theorem ParseEventLine_admission_witness:
  "\<exists>e ws. ParseEventLine reference_validate reference_schemas rev overflow_line 0 SpoolRecord = Inr (e, ws)
    \<and> e_kind e = ''overflow'' \<and> e_severity e = SeverityWarn"
proof -
  obtain e ws where run: "ParseEventLine reference_validate reference_schemas rev overflow_line 0 SpoolRecord = Inr (e, ws)"
    using overflow_accepted by blast
  moreover have "e_id e = string_or_empty overflow_object ''id''"
    by (rule ParseEventLine_InrE [OF reference_implements run]) (use overflow_line_decodes(1) in \<open>simp add: event_of_def\<close>)
  ultimately show ?thesis
    using ParseEventLine_admission [OF reference_implements run] sample_overflow_id profiles_distinct by auto
qed

text \<open>
  C10. Duplicates: two accepted lines get the same content digest exactly when they carry the same JSON
  value, provided the hash does not collide on their canonical texts. Order of members, white space,
  escapes, the stream and the bounds they were parsed under do not matter.
\<close>

theorem ParseEventLine_digest:
  assumes "schemas_implemented validate S"
    and "ParseEventLine validate S sha256 line1 m1 profile1 = Inr (e1, ws1)"
    and "ParseEventLine validate S sha256 line2 m2 profile2 = Inr (e2, ws2)"
    and "decodeStrict (trim_newline line1) = Inr v" "decodeStrict (trim_newline line2) = Inr w"
    and "sha256 (canon v) = sha256 (canon w) \<longrightarrow> canon v = canon w"
  shows "e_digest e1 = e_digest e2 \<longleftrightarrow> jeq v w"
proof -
  have "e_digest e1 = sha256 (canon v)"
    by (rule ParseEventLine_InrE [OF assms(1,2)]) (use assms(4) in \<open>simp add: event_of_def\<close>)
  moreover have "e_digest e2 = sha256 (canon w)"
    by (rule ParseEventLine_InrE [OF assms(1,3)]) (use assms(5) in \<open>simp add: event_of_def\<close>)
  moreover have "canon v = canon w \<longleftrightarrow> jeq v w"
    using canonical.decoded_eq_iff [OF assms(4,5)] decodeStrict_accepts(2) [OF assms(4)]
      decodeStrict_accepts(2) [OF assms(5)] by (simp add: normal_form_eq_iff)
  ultimately show ?thesis
    using assms(6) by auto
qed

theorem ParseEventLine_digest_witness:
  "\<exists>e1 e2. ParseEventLine reference_validate reference_schemas rev sample_line 0 WatcherInput = Inr (e1, [])
    \<and> ParseEventLine reference_validate reference_schemas rev sample_line 0 SpoolRecord = Inr (e2, [])
    \<and> e_digest e1 = e_digest e2"
proof -
  obtain t1 where r1: "ParseEventLine reference_validate reference_schemas rev sample_line 0 WatcherInput
      = Inr (event_of rev sample_object ''ci-1'' t1, [])"
    using sample_run [of WatcherInput rev] by auto
  obtain t2 where r2: "ParseEventLine reference_validate reference_schemas rev sample_line 0 SpoolRecord
      = Inr (event_of rev sample_object ''ci-1'' t2, [])"
    using sample_run [of SpoolRecord rev] by auto
  have d: "decodeStrict (trim_newline sample_line) = Inr (JObject sample_object)"
    using sample_line_plain sample_line_decodes by simp
  have "jeq (JObject sample_object) (JObject sample_object)"
    using normal_form_eq_iff [OF decodeStrict_accepts(2) [OF d] decodeStrict_accepts(2) [OF d]] by simp
  with ParseEventLine_digest [OF reference_implements r1 r2 d d] r1 r2 show ?thesis by blast
qed

lemma canonical_line_parses:
  fixes validate :: "'s \<Rightarrow> jval \<Rightarrow> 'v option"
  assumes "schemas_implemented validate S" "ParseEventLine validate S sha256 line m profile = Inr (e, ws)"
    and "decodeStrict (trim_newline line) = Inr v" "appendCanonical [] v = Inr buf"
  shows "ParseEventLine validate S sha256 (buf @ [CHR 0x0A]) m profile
    = (if int (length buf) < effective_max m
       then Inr (e\<lparr>e_data := map_option normal_members (e_data e)\<rparr>, ws)
       else Inl (Oversized (length buf + 1) (effective_max m)))"
proof -
  obtain obj schema t where o:
    "decodeStrict (trim_newline line) = Inr (JObject obj)"
    "profileSchema S profile (string_or_empty obj ''id'') = (Inr schema :: 'v event_error + 's)"
    "validate schema (JObject obj) = None" "parseTimestamp (string_or_empty obj ''ts'') = Inr t"
    "e = event_of sha256 obj (string_or_empty obj ''id'') t"
    "ws = summary_warnings (string_or_empty obj ''summary'')"
    by (rule ParseEventLine_InrE [OF assms(1,2)])
  have v: "v = JObject obj" "value_ok (JObject obj)"
    using o(1) assms(3) decodeStrict_ok by auto
  then have ok: "keys_ok obj" and wf: "jval_wf (JObject obj)"
    by (auto simp: value_ok_def jval_wf_JObject)
  have buf: "buf = canon (JObject obj)"
    using assms(4) v by (simp add: appendCanonical_ok)
  have "canon (JObject (normal_members obj)) = buf"
    using canon_normal_form [OF v(2)] by (simp only: normal_form_JObject buf)
  moreover have "validate schema (JObject (normal_members obj)) = None"
  proof -
    have "schema \<in> {watcherEvent S, deliveryEvent S, gapEvent S, overflowEvent S}"
      using o(2) by (auto simp: profileSchema_def split: if_split_asm)
    moreover have "validate (watcherEvent S) u = None \<longleftrightarrow> watcher_event_ok u"
      "validate (deliveryEvent S) u = None \<longleftrightarrow> base_event_ok u" "validate (gapEvent S) u = None \<longleftrightarrow> gap_event_ok u"
      "validate (overflowEvent S) u = None \<longleftrightarrow> overflow_event_ok u" for u
      using assms(1) by (simp_all only: schemas_implemented_def)
    ultimately show ?thesis
      using o(3) by (elim insertE emptyE)
        (simp_all only: watcher_event_ok_normal [OF wf] base_event_ok_normal [OF ok] service_event_ok_normal [OF wf])
  qed
  moreover have "decodeStrict buf = Inr (JObject (normal_members obj))"
    using decodeStrict_canon [OF v(2)] by (simp only: buf normal_form_JObject)
  moreover have "CHR 0x0A \<notin> set buf"
    unfolding buf by (rule one_line_no_LF [OF one_line_canon [OF v(2)]])
  ultimately have "ParseEventLine validate S sha256 (buf @ [CHR 0x0A]) m profile
      = Inr (e\<lparr>e_data := map_option normal_members (e_data e)\<rparr>, ws)" if "int (length buf) < effective_max m"
    using ParseEventLine_accept [OF assms(1), of "buf @ [CHR 0x0A]" m "normal_members obj" profile schema sha256]
      o(2,4,5,6) that buf
    by (auto simp: member_string_rules [OF ok] event_of_def object_member_normal [OF ok])
  moreover have "ParseEventLine validate S sha256 (buf @ [CHR 0x0A]) m profile
      = Inl (Oversized (length buf + 1) (effective_max m))" if "\<not> int (length buf) < effective_max m"
    using that by (simp add: ParseEventLine_def)
  ultimately show ?thesis by simp
qed

text \<open>
  C9. Re-reading canonical text: an accepted record, written canonically as one line, is accepted again in the
  same stream exactly when the written line, its newline included, stays within the byte bound, and then
  it gives the same event, digest and warnings, with its data in canonical member order. Canonical text
  can be longer than the line it was read from (a raw U+2028 in it becomes an escape of six bytes); past
  the bound the outcome is the oversized error, with the length of the written line and the bound.
\<close>

theorem ParseEventLine_canonical:
  fixes validate :: "'s \<Rightarrow> jval \<Rightarrow> 'v option"
  assumes "schemas_implemented validate S" "ParseEventLine validate S sha256 line m profile = Inr (e, ws)"
    and "decodeStrict (trim_newline line) = Inr v" "appendCanonical [] v = Inr buf"
  shows "ParseEventLine validate S sha256 (buf @ [CHR 0x0A]) m profile
    = (if int (length buf) < effective_max m
       then Inr (e\<lparr>e_data := map_option normal_members (e_data e)\<rparr>, ws)
       else Inl (Oversized (length buf + 1) (effective_max m)))"
  using assms by (rule canonical_line_parses)

lemma sample_canonical:
  "appendCanonical [] (JObject sample_object) =
     Inr ''{\"id\":\"ci-1\",\"kind\":\"run\",\"severity\":\"info\",\"source\":\"ci\",\"summary\":\"ok\",\"ts\":\"2024-02-29T23:59:59Z\"}''"
  by (simp add: canon_eval sample_object_def decode_rune_1 utf16_encode_rune_def scalar_def)

theorem ParseEventLine_canonical_witness:
  "\<exists>e. ParseEventLine reference_validate reference_schemas rev
      ''{\"id\":\"ci-1\",\"kind\":\"run\",\"severity\":\"info\",\"source\":\"ci\",\"summary\":\"ok\",\"ts\":\"2024-02-29T23:59:59Z\"}\<newline>''
      0 WatcherInput = Inr (e, [])"
proof -
  obtain t where r: "ParseEventLine reference_validate reference_schemas rev sample_line 0 WatcherInput
      = Inr (event_of rev sample_object ''ci-1'' t, [])"
    using sample_run [of WatcherInput rev] by auto
  have d: "decodeStrict (trim_newline sample_line) = Inr (JObject sample_object)"
    using sample_line_plain sample_line_decodes by simp
  from ParseEventLine_canonical [OF reference_implements r d sample_canonical] show ?thesis
    by simp
qed

end
