(* ===== verification/Mount_Info.thy ===== *)
theory Mount_Info
  imports Utf8 Timestamp "HOL-Library.Word"
begin

unbundle bit_operations_syntax

text \<open>
  \<open>internal/durability/mountinfo.go\<close> and the magic table of \<open>sync_linux.go\<close>: which filesystem holds a
  device, and what is known of it. Device numbers are words of the width the code gives them.
  \<open>bytes.Split\<close>, \<open>strings.Fields\<close> and \<open>strconv.FormatUint\<close> are modelled.
\<close>

section \<open>Device numbers\<close>

definition linuxDeviceNumbers :: "64 word \<Rightarrow> 32 word \<times> 32 word" where
  "linuxDeviceNumbers device =
    (ucast (drop_bit 8 device AND 0xfff) OR ucast (drop_bit 32 device AND NOT 0xfff),
     ucast (device AND 0xff) OR ucast (drop_bit 12 device AND NOT 0xff))"

text \<open>The encoding the code undoes: the C library's \<open>makedev\<close>.\<close>

definition makedev :: "32 word \<Rightarrow> 32 word \<Rightarrow> 64 word" where
  "makedev ma mi =
    (ucast mi AND 0xff) OR push_bit 8 (ucast ma AND 0xfff)
    OR push_bit 12 (ucast mi AND NOT 0xff) OR push_bit 32 (ucast ma AND NOT 0xfff)"

lemma low_masks: "(0xfff :: 'a::len word) = mask 12" "(0xff :: 'a::len word) = mask 8"
  by (simp_all add: mask_eq_exp_minus_1)

lemma linuxDeviceNumbers_makedev: "linuxDeviceNumbers (makedev ma mi) = (ma, mi)"
proof -
  have "fst (linuxDeviceNumbers (makedev ma mi)) = ma"
    unfolding linuxDeviceNumbers_def makedev_def low_masks fst_conv
    by (rule bit_word_eqI) (auto simp: bit_simps dest: bit_imp_le_length)
  moreover have "snd (linuxDeviceNumbers (makedev ma mi)) = mi"
    unfolding linuxDeviceNumbers_def makedev_def low_masks snd_conv
    by (rule bit_word_eqI) (auto simp: bit_simps)
  ultimately show ?thesis by (simp add: prod_eq_iff)
qed

lemma makedev_linuxDeviceNumbers: "makedev (fst (linuxDeviceNumbers d)) (snd (linuxDeviceNumbers d)) = d"
proof (rule bit_word_eqI)
  fix n assume n: "n < LENGTH(64)"
  consider "n < 8" | k where "n = 8 + k" "k < 12" "n - 12 < 8" | k where "n = 20 + k" "k < 24" "n - 8 \<ge> 12" "n - 12 = 8 + k"
      "n - 32 < 12" | k where "n = 44 + k" "k < 20" "n - 8 = 36 + k" "n - 12 = 32 + k" "n - 32 = 12 + k"
  proof -
    have "n < 8 \<or> (\<exists>k. n = 8 + k \<and> k < 12) \<or> (\<exists>k. n = 20 + k \<and> k < 24) \<or> (\<exists>k. n = 44 + k \<and> k < 20)"
      using n by simp presburger
    then show ?thesis using that by fastforce
  qed
  then show "bit (makedev (fst (linuxDeviceNumbers d)) (snd (linuxDeviceNumbers d))) n = bit d n"
    using n unfolding linuxDeviceNumbers_def makedev_def low_masks fst_conv snd_conv
    by cases (simp_all add: bit_simps)
qed

section \<open>The mount table\<close>

text \<open>\<open>unicode.IsSpace\<close>, and \<open>strings.Fields\<close>: the maximal runs of runes that are not spaces.\<close>

definition space_rune :: "nat \<Rightarrow> bool" where
  "space_rune r \<longleftrightarrow> r \<in> {9, 10, 11, 12, 13, 32, 133, 160, 5760, 8232, 8233, 8239, 8287, 12288}
     \<or> (8192 \<le> r \<and> r \<le> 8202)"

definition flush :: "bytes \<Rightarrow> bytes list" where
  "flush cur = (if cur = [] then [] else [cur])"

fun fields_loop :: "bytes \<Rightarrow> bytes \<Rightarrow> bytes list" where
  "fields_loop cur [] = flush cur"
| "fields_loop cur (c # t) =
    (case decode_rune (c # t) of
       (r, n) \<Rightarrow>
         if space_rune r then flush cur @ fields_loop [] (drop (n - 1) t)
         else fields_loop (cur @ take n (c # t)) (drop (n - 1) t))"

declare fields_loop.simps(2) [simp del]

definition string_fields :: "bytes \<Rightarrow> bytes list" where
  "string_fields s = fields_loop [] s"

text \<open>The inner loop from index 6: the field after the lone dash.\<close>

fun type_after_dash :: "bytes list \<Rightarrow> bytes option" where
  "type_after_dash (a # b # fs) = (if a = ''-'' then Some b else type_after_dash (b # fs))"
| "type_after_dash _ = None"

definition line_type :: "bytes \<Rightarrow> bytes \<Rightarrow> bytes option" where
  "line_type want line =
    (let fields = string_fields line in
      if length fields < 8 \<or> fields ! 2 \<noteq> want then None else type_after_dash (drop 6 fields))"

fun first_line_type :: "bytes \<Rightarrow> bytes list \<Rightarrow> bytes" where
  "first_line_type want [] = []"
| "first_line_type want (l # ls) =
    (case line_type want l of Some t \<Rightarrow> t | None \<Rightarrow> first_line_type want ls)"

definition device_key :: "32 word \<Rightarrow> 32 word \<Rightarrow> bytes" where
  "device_key major minor = itoa (unat major) @ '':'' @ itoa (unat minor)"

definition mountTypeForDevice :: "bytes \<Rightarrow> 32 word \<Rightarrow> 32 word \<Rightarrow> bytes" where
  "mountTypeForDevice mountinfo major minor =
    first_line_type (device_key major minor) (split_bytes (CHR 0x0A) mountinfo)"

section \<open>Classification\<close>

record filesystem =
  fs_name :: bytes
  fs_network :: bool
  fs_volatile :: bool

definition no_filesystem :: filesystem where
  "no_filesystem = \<lparr>fs_name = [], fs_network = False, fs_volatile = False\<rparr>"

definition network_types :: "bytes list" where
  "network_types = [''nfs'', ''nfs4'', ''cifs'', ''smb3'', ''smbfs'', ''9p'', ''ceph'', ''lustre'', ''ocfs2'',
     ''afs'', ''glusterfs'', ''davfs'', ''beegfs'', ''orangefs'']"

definition volatile_types :: "bytes list" where
  "volatile_types = [''tmpfs'', ''ramfs'', ''overlay'']"

definition local_types :: "bytes list" where
  "local_types = [''ext2'', ''ext3'', ''ext4'', ''xfs'', ''btrfs'', ''zfs'', ''f2fs'', ''bcachefs'', ''jfs'',
     ''nilfs2'', ''reiserfs'', ''erofs'', ''squashfs'', ''udf'', ''ubifs'', ''vfat'', ''exfat'', ''ntfs'',
     ''ntfs3'', ''hfsplus'']"

definition mountTypes :: "(bytes \<times> filesystem) list" where
  "mountTypes =
     map (\<lambda>n. (n, no_filesystem\<lparr>fs_network := True\<rparr>)) network_types
     @ map (\<lambda>n. (n, no_filesystem\<lparr>fs_volatile := True\<rparr>)) volatile_types
     @ map (\<lambda>n. (n, no_filesystem)) local_types"

definition classifyMountType :: "bytes \<Rightarrow> filesystem \<times> bool" where
  "classifyMountType name =
    (if name = ''fuse'' \<or> name = ''fuseblk'' \<or> prefix ''fuse.'' name
     then (\<lparr>fs_name = name, fs_network = True, fs_volatile = False\<rparr>, True)
     else (case map_of mountTypes name of
             None \<Rightarrow> (no_filesystem\<lparr>fs_name := name\<rparr>, False)
           | Some known \<Rightarrow> (known\<lparr>fs_name := name\<rparr>, True)))"

definition net :: "bytes \<Rightarrow> filesystem" where
  "net name = \<lparr>fs_name = name, fs_network = True, fs_volatile = False\<rparr>"

definition vol :: "bytes \<Rightarrow> filesystem" where
  "vol name = \<lparr>fs_name = name, fs_network = False, fs_volatile = True\<rparr>"

definition loc :: "bytes \<Rightarrow> filesystem" where
  "loc name = \<lparr>fs_name = name, fs_network = False, fs_volatile = False\<rparr>"

definition filesystemMagics :: "(32 word \<times> filesystem) list" where
  "filesystemMagics =
    [(0x6969, net ''nfs''), (0xff534d42, net ''cifs''), (0xfe534d42, net ''smb2''), (0x517b, net ''smbfs''),
     (0x5346414f, net ''afs''), (0x6b414653, net ''afs''), (0x1021997, net ''9p''), (0xc36400, net ''ceph''),
     (0xbd00bd0, net ''lustre''), (0x7461636f, net ''ocfs2''), (0x65735546, net ''fuse''),
     (0x1021994, vol ''tmpfs''), (0x858458f6, vol ''ramfs''), (0x794c7630, vol ''overlay''),
     (0x9123683e, loc ''btrfs''), (0xef53, loc ''ext4''), (0x58465342, loc ''xfs''), (0x2fc12fc1, loc ''zfs'')]"

text \<open>\<open>strconv.FormatUint\<close> in base 16.\<close>

fun to_hex :: "nat \<Rightarrow> bytes" where
  "to_hex n = (if n < 16 then [hex_digit n] else to_hex (n div 16) @ [hex_digit (n mod 16)])"

declare to_hex.simps [simp del]

definition filesystemForMagic :: "32 word \<Rightarrow> filesystem" where
  "filesystemForMagic magic =
    (case map_of filesystemMagics magic of
       Some known \<Rightarrow> known
     | None \<Rightarrow> loc (''0x'' @ to_hex (unat magic)))"

section \<open>A kernel mount table is read back\<close>

text \<open>One line of proc(5)'s format; the fields are texts without spaces, the optional ones not a dash.\<close>

record mount_entry =
  me_id :: bytes
  me_parent :: bytes
  me_major :: "32 word"
  me_minor :: "32 word"
  me_root :: bytes
  me_point :: bytes
  me_options :: bytes
  me_optional :: "bytes list"
  me_type :: bytes
  me_source :: bytes
  me_super :: bytes

definition entry_fields :: "mount_entry \<Rightarrow> bytes list" where
  "entry_fields e =
    [me_id e, me_parent e, device_key (me_major e) (me_minor e), me_root e, me_point e, me_options e]
    @ me_optional e @ [''-'', me_type e, me_source e, me_super e]"

fun join_words :: "bytes list \<Rightarrow> bytes" where
  "join_words [] = []"
| "join_words [w] = w"
| "join_words (w # ws) = w @ '' '' @ join_words ws"

definition word_ok :: "bytes \<Rightarrow> bool" where
  "word_ok w \<longleftrightarrow> w \<noteq> [] \<and> utf8_valid w \<and> list_all (\<lambda>r. \<not> space_rune r) (runes w)"

definition entry_ok :: "mount_entry \<Rightarrow> bool" where
  "entry_ok e \<longleftrightarrow> list_all word_ok (entry_fields e) \<and> ''-'' \<notin> set (me_optional e)"

definition mount_table :: "mount_entry list \<Rightarrow> bytes" where
  "mount_table es = concat (map (\<lambda>e. join_words (entry_fields e) @ [CHR 0x0A]) es)"

lemma fields_loop_rune:
  assumes "scalar r"
  shows "fields_loop cur (encode_rune r @ t) =
    (if space_rune r then flush cur @ fields_loop [] t else fields_loop (cur @ encode_rune r) t)"
proof -
  obtain b u where e: "encode_rune r = b # u" by (cases "encode_rune r") auto
  have "decode_rune (b # u @ t) = (r, Suc (length u))"
    using decode_encode [OF assms, of t] by (simp add: e)
  then show ?thesis by (simp add: e fields_loop.simps)
qed

lemma fields_loop_word:
  "utf8_valid w \<Longrightarrow> list_all (\<lambda>r. \<not> space_rune r) (runes w) \<Longrightarrow>
   fields_loop cur (w @ t) = fields_loop (cur @ w) t"
  by (induction arbitrary: cur rule: utf8_induct) (simp_all add: fields_loop_rune)

lemma fields_loop_space: "fields_loop cur (CHR 0x20 # t) = flush cur @ fields_loop [] t"
  by (simp add: fields_loop.simps decode_rune_1 space_rune_def)

lemma string_fields_join:
  "list_all word_ok ws \<Longrightarrow> string_fields (join_words ws) = ws"
proof (induction ws rule: join_words.induct)
  case (2 w)
  then show ?case
    using fields_loop_word [of w "[]" "[]"] by (simp add: string_fields_def word_ok_def flush_def)
next
  case (3 w v ws)
  then show ?case
    using fields_loop_word [of w "[]" "CHR 0x20 # join_words (v # ws)"]
    by (simp add: string_fields_def word_ok_def flush_def fields_loop_space)
qed (simp add: string_fields_def flush_def)

lemma type_after_dash_skip:
  "''-'' \<notin> set opts \<Longrightarrow> type_after_dash (opts @ ''-'' # t # fs) = Some t"
  by (induction opts rule: type_after_dash.induct) auto

lemma line_type_entry:
  assumes "entry_ok e"
  shows "line_type (device_key major minor) (join_words (entry_fields e)) =
    (if device_key (me_major e) (me_minor e) = device_key major minor then Some (me_type e) else None)"
proof -
  have "string_fields (join_words (entry_fields e)) = entry_fields e"
    using assms by (simp add: entry_ok_def string_fields_join)
  then show ?thesis
    using assms type_after_dash_skip
    by (simp add: line_type_def entry_fields_def entry_ok_def)
qed

lemma device_key_inj: "device_key a b = device_key c d \<longleftrightarrow> a = c \<and> b = d"
proof
  assume eq: "device_key a b = device_key c d"
  have tw: "takeWhile is_digit (itoa m @ CHR '':'' # t) = itoa m" "dropWhile is_digit (itoa m @ CHR '':'' # t) = CHR '':'' # t"
    for m t
    using itoa_is_digit by (simp_all add: takeWhile_append2 dropWhile_append2 is_digit_def)
  have "takeWhile is_digit (device_key a b) = itoa (unat a)" "takeWhile is_digit (device_key c d) = itoa (unat c)"
    "dropWhile is_digit (device_key a b) = CHR '':'' # itoa (unat b)"
    "dropWhile is_digit (device_key c d) = CHR '':'' # itoa (unat d)"
    by (simp_all only: device_key_def append_Cons append_Nil tw)
  then have "itoa (unat a) = itoa (unat c)" "itoa (unat b) = itoa (unat d)"
    unfolding eq by simp_all
  then show "a = c \<and> b = d" by (simp add: word_unat_eq_iff)
qed simp

lemma word_ok_no_LF: "word_ok w \<Longrightarrow> CHR 0x0A \<notin> set w"
proof
  assume w: "word_ok w" and "CHR 0x0A \<in> set w"
  then obtain u v where "w = u @ CHR 0x0A # v" by (meson split_list)
  then have "sublist [CHR 0x0A] w" by (auto simp: sublist_def)
  moreover have "encode_rune 10 = [CHR 0x0A]"
    using encode_rune_bval [of "CHR 0x0A"] by simp
  ultimately have "sublist (encode_rune 10) w" by simp
  then have "10 \<in> set (runes w)"
    using w by (intro runes_sublist) (simp_all add: word_ok_def scalar_def)
  then show False
    using w by (auto simp: word_ok_def list_all_iff space_rune_def)
qed

lemma join_words_no_LF: "list_all word_ok ws \<Longrightarrow> CHR 0x0A \<notin> set (join_words ws)"
  by (induction ws rule: join_words.induct) (auto simp: word_ok_no_LF)

lemma mountTypeForDevice_lookup:
  assumes "list_all entry_ok es"
  shows "mountTypeForDevice (mount_table es) major minor =
    (case find (\<lambda>e. me_major e = major \<and> me_minor e = minor) es of None \<Rightarrow> [] | Some e \<Rightarrow> me_type e)"
  using assms
proof (induction es)
  case Nil
  then show ?case
    by (simp add: mountTypeForDevice_def mount_table_def line_type_def string_fields_def flush_def)
next
  case (Cons e es)
  have "split_bytes (CHR 0x0A) (mount_table (e # es))
      = join_words (entry_fields e) # split_bytes (CHR 0x0A) (mount_table es)"
    using Cons.prems split_bytes_line [OF join_words_no_LF] by (simp add: mount_table_def entry_ok_def)
  then show ?case
    using Cons line_type_entry [of e major minor] by (simp add: mountTypeForDevice_def device_key_inj)
qed

text \<open>
  C26. Reading a mount table: on any table in the kernel's format, whatever the optional fields, the
  lookup returns the type of the first mount with the given device, and nothing if there is none.
\<close>

theorem mountTypeForDevice_table:
  assumes "list_all entry_ok es"
  shows "mountTypeForDevice (mount_table es) major minor =
    (case find (\<lambda>e. me_major e = major \<and> me_minor e = minor) es of None \<Rightarrow> [] | Some e \<Rightarrow> me_type e)"
  using assms by (rule mountTypeForDevice_lookup)

definition sample_entries :: "mount_entry list" where
  "sample_entries =
    [\<lparr>me_id = ''36'', me_parent = ''35'', me_major = 98, me_minor = 0, me_root = ''/mnt1'', me_point = ''/mnt2'',
      me_options = ''rw,noatime'', me_optional = [''shared:1'', ''master:2''], me_type = ''ext3'',
      me_source = ''/dev/root'', me_super = ''rw''\<rparr>,
     \<lparr>me_id = ''37'', me_parent = ''36'', me_major = 0, me_minor = 300, me_root = ''/'', me_point = ''/tmp'',
      me_options = ''rw'', me_optional = [], me_type = ''tmpfs'', me_source = ''tmpfs'', me_super = ''rw''\<rparr>]"

lemma word_ok_ascii: "w \<noteq> [] \<Longrightarrow> list_all (\<lambda>c. 32 < bval c \<and> bval c < 127) w \<Longrightarrow> word_ok w"
proof -
  assume w: "w \<noteq> []" "list_all (\<lambda>c. 32 < bval c \<and> bval c < 127) w"
  then have "utf8_valid w" "runes w = map bval w"
    using ascii_valid [of w] by (auto simp: list_all_iff) (fastforce simp: list_all_iff)+
  then show ?thesis
    using w by (auto simp: word_ok_def list_all_iff space_rune_def)
qed

lemma sample_entries_ok: "list_all entry_ok sample_entries"
  by (simp add: sample_entries_def entry_ok_def entry_fields_def word_ok_ascii device_key_def itoa.simps digit_char_def)

theorem mountTypeForDevice_table_witness:
  "mountTypeForDevice (mount_table sample_entries) 0 300 = ''tmpfs''"
  unfolding mountTypeForDevice_table [OF sample_entries_ok]
  by (simp add: sample_entries_def)

text \<open>
  A mount point may hold a no-break space (U+00A0), which the kernel writes unescaped and
  \<open>strings.Fields\<close> splits at: here a mount of type ext4 is read as tmpfs.
\<close>

definition nbsp_line :: bytes where
  "nbsp_line = ''36 35 98:0 / /m'' @ encode_rune 160 @ ''x'' @ encode_rune 160 @ ''-'' @ encode_rune 160
     @ ''tmpfs rw - ext4 /dev/sda1 rw''"

lemma mount_point_with_nbsp: "mountTypeForDevice nbsp_line 98 0 = ''tmpfs''"
proof -
  have e: "encode_rune 160 = [CHR 0xC2, CHR 0xA0]"
  proof -
    have "encode_rune 160 = [char_of (194::nat), char_of (160::nat)]"
      by (simp add: encode_rune_def encode_scalar_def scalar_def)
    then show ?thesis
      using char_of_bval_eq [of "CHR 0xC2" 194] char_of_bval_eq [of "CHR 0xA0" 160] by simp
  qed
  have "string_fields nbsp_line = [''36'', ''35'', ''98:0'', ''/'', ''/m'', ''x'', ''-'', ''tmpfs'', ''rw'', ''-'', ''ext4'', ''/dev/sda1'', ''rw'']"
    by (simp add: nbsp_line_def e string_fields_def fields_loop.simps decode_rune_1 decode_rune_2 in_range_def
        space_rune_def flush_def)
  moreover have "split_bytes (CHR 0x0A) nbsp_line = [nbsp_line]"
    by (simp add: nbsp_line_def e)
  ultimately show ?thesis
    by (simp add: mountTypeForDevice_def line_type_def device_key_def itoa.simps digit_char_def)
qed

text \<open>
  Splitting \<open>st_dev\<close> inverts the C library's device encoding and loses no bit of it: for every
  major and minor number of 32 bits, and for every 64-bit device.
\<close>

theorem linuxDeviceNumbers_inverse:
  "linuxDeviceNumbers (makedev ma mi) = (ma, mi)
    \<and> (case linuxDeviceNumbers d of (ma', mi') \<Rightarrow> makedev ma' mi' = d)"
  using linuxDeviceNumbers_makedev makedev_linuxDeviceNumbers by (simp add: case_prod_beta)

text \<open>
  The two classifications agree: a magic number whose filesystem the name table (or the FUSE rule)
  also knows gets exactly the verdict the name gets, no filesystem is both network and volatile, and
  only the SMB2 magic has a name that the mount table would refuse.
\<close>

theorem classifications_agree:
  "list_all (\<lambda>(magic, fs). filesystemForMagic magic = fs \<and> \<not> (fs_network fs \<and> fs_volatile fs)
     \<and> (classifyMountType (fs_name fs) = (fs, True) \<or> fs_name fs = ''smb2'')) filesystemMagics"
  by (simp add: filesystemMagics_def filesystemForMagic_def classifyMountType_def mountTypes_def
      network_types_def volatile_types_def local_types_def no_filesystem_def net_def vol_def loc_def)

end
