(* ===== verification/Os_World.thy ===== *)
theory Os_World
  imports Prelude "HOL-Library.Word" "HOL-Library.State_Monad"
begin

text \<open>
  The operating system as the spool and the durability probe see it. A program runs in the state monad
  over a \<open>world\<close>; every system call consults the environment \<open>w_env\<close>, an arbitrary function of the
  number of calls made so far: the call completes, fails with an error (a write may have put some
  bytes in the file first), or the process dies in it. A dead process has no further effect. All
  calls are logged with their result, so a property can speak about what was executed.

  Of the file system the world keeps the events file of one source: its visible contents, how many
  of its first bytes are on stable storage, whether the directory entries that reach it are, and
  the descriptor that holds the advisory lock. Paths are compared literally with the two directories
  named in \<open>w_host\<close>.
\<close>

section \<open>Calls and outcomes\<close>

datatype errno = ENOTSUP | EOPNOTSUPP | EINVAL | ENOSYS | EWOULDBLOCK | EIO | ENOSPC | ENOENT | OtherErrno nat

datatype handle = ProbeFile | DirHandle bytes | EventsFile | LockFile nat

datatype syscall =
    MkdirAll bytes
  | CreateTemp bytes
  | OpenDir bytes
  | OpenLock bytes
  | OpenEvents bytes
  | Write handle bytes
  | Fsync handle
  | FullFsync handle
  | Stat handle
  | StatPath bytes
  | Close handle
  | RemoveProbe
  | Flock nat
  | ReadAt nat nat
  | Truncate nat
  | ReadMountinfo
  | Statfs bytes
  | Getwd

datatype outcome = Done | Fail errno nat | Die nat

datatype platform = Linux | Darwin

text \<open>What does not change while the process runs.\<close>

record host =
  h_platform :: platform
  h_root :: bytes
  h_events_dir :: bytes
  h_cwd :: bytes
  h_mountinfo :: bytes
  h_path_device :: "bytes \<Rightarrow> 64 word"
  h_file_device :: "handle \<Rightarrow> 64 word"
  h_regular :: "handle \<Rightarrow> bool"
  h_fs_type :: "64 word"
  h_fs_name :: bytes
  h_fs_flags :: "32 word"

record world =
  w_host :: host
  w_env :: "nat \<Rightarrow> outcome"
  w_log :: "(syscall \<times> errno option) list"
  w_dead :: bool
  w_data :: bytes
  w_durable :: nat
  w_dir_exists :: bool
  w_file_exists :: bool
  w_dir_entry_durable :: bool
  w_file_entry_durable :: bool
  w_lock :: "nat option"

section \<open>Effects\<close>

text \<open>
  Which sync reaches stable storage: \<open>fsync\<close> on Linux, only \<open>F_FULLFSYNC\<close> on macOS, where \<open>fsync\<close>
  leaves the data in the drive's cache.
\<close>

definition reaches_storage :: "platform \<Rightarrow> syscall \<Rightarrow> bool" where
  "reaches_storage p c = (case c of FullFsync f \<Rightarrow> True | Fsync f \<Rightarrow> p = Linux | _ \<Rightarrow> False)"

definition sync_effect :: "handle \<Rightarrow> world \<Rightarrow> world" where
  "sync_effect f w =
    (case f of
       EventsFile \<Rightarrow> w\<lparr>w_durable := length (w_data w)\<rparr>
     | DirHandle p \<Rightarrow>
         w\<lparr>w_dir_entry_durable := w_dir_entry_durable w \<or> (p = h_root (w_host w) \<and> w_dir_exists w),
           w_file_entry_durable := w_file_entry_durable w \<or> (p = h_events_dir (w_host w) \<and> w_file_exists w)\<rparr>
     | _ \<Rightarrow> w)"

definition close_effect :: "handle \<Rightarrow> world \<Rightarrow> world" where
  "close_effect f w =
    (case f of
       LockFile fd \<Rightarrow> if w_lock w = Some fd then w\<lparr>w_lock := None\<rparr> else w
     | _ \<Rightarrow> w)"

definition effect :: "syscall \<Rightarrow> world \<Rightarrow> world" where
  "effect c w =
    (case c of
       MkdirAll p \<Rightarrow> if p = h_events_dir (w_host w) then w\<lparr>w_dir_exists := True\<rparr> else w
     | OpenEvents p \<Rightarrow> w\<lparr>w_file_exists := True\<rparr>
     | Write f b \<Rightarrow> if f = EventsFile then w\<lparr>w_data := w_data w @ b\<rparr> else w
     | Fsync f \<Rightarrow> if reaches_storage (h_platform (w_host w)) c then sync_effect f w else w
     | FullFsync f \<Rightarrow> sync_effect f w
     | Close f \<Rightarrow> close_effect f w
     | Flock fd \<Rightarrow> w\<lparr>w_lock := Some fd\<rparr>
     | Truncate n \<Rightarrow> w\<lparr>w_data := take n (w_data w), w_durable := min n (w_durable w)\<rparr>
     | _ \<Rightarrow> w)"

text \<open>What a failing or interrupted call has done: some bytes of a write, a truncation or
  nothing; a close always closes.\<close>

definition partial_effect :: "nat \<Rightarrow> syscall \<Rightarrow> world \<Rightarrow> world" where
  "partial_effect k c w =
    (case c of
       Write f b \<Rightarrow> effect (Write f (take k b)) w
     | Close f \<Rightarrow> close_effect f w
     | Truncate n \<Rightarrow> if k = 0 then w else effect (Truncate n) w
     | _ \<Rightarrow> w)"

text \<open>A refusal that the state decides: the lock is held through another descriptor.\<close>

definition refused :: "syscall \<Rightarrow> world \<Rightarrow> errno option" where
  "refused c w =
    (case c of
       Flock fd \<Rightarrow> if w_lock w \<noteq> None \<and> w_lock w \<noteq> Some fd then Some EWOULDBLOCK else None
     | _ \<Rightarrow> None)"

definition logged :: "syscall \<Rightarrow> errno option \<Rightarrow> world \<Rightarrow> world" where
  "logged c r w = w\<lparr>w_log := w_log w @ [(c, r)]\<rparr>"

definition run_call :: "syscall \<Rightarrow> world \<Rightarrow> errno option \<times> world" where
  "run_call c w =
    (if w_dead w then (Some EIO, w)
     else (case w_env w (length (w_log w)) of
             Done \<Rightarrow>
               (case refused c w of
                  None \<Rightarrow> (None, logged c None (effect c w))
                | Some e \<Rightarrow> (Some e, logged c (Some e) w))
           | Fail e k \<Rightarrow> (Some e, logged c (Some e) (partial_effect k c w))
           | Die k \<Rightarrow> (Some EIO, logged c (Some EIO) ((partial_effect k c w)\<lparr>w_dead := True\<rparr>))))"

type_synonym 'a io = "(world, 'a) state"

definition perform :: "syscall \<Rightarrow> errno option io" where
  "perform c = State (run_call c)"

section \<open>Running programs\<close>

definition exec :: "'a io \<Rightarrow> world \<Rightarrow> world" where
  "exec m w = snd (run_state m w)"

definition result :: "'a io \<Rightarrow> world \<Rightarrow> 'a" where
  "result m w = fst (run_state m w)"

lemma exec_bind: "exec (State_Monad.bind m f) w = exec (f (result m w)) (exec m w)"
  and result_bind: "result (State_Monad.bind m f) w = result (f (result m w)) (exec m w)"
  by (simp_all add: exec_def result_def State_Monad.bind_def split: prod.split)

lemma exec_return [simp]: "exec (State_Monad.return a) w = w"
  and result_return [simp]: "result (State_Monad.return a) w = a"
  by (simp_all add: exec_def result_def State_Monad.return_def)

lemma exec_get [simp]: "exec State_Monad.get w = w"
  and result_get [simp]: "result State_Monad.get w = w"
  by (simp_all add: exec_def result_def State_Monad.get_def)

lemma exec_perform: "exec (perform c) w = snd (run_call c w)"
  and result_perform: "result (perform c) w = fst (run_call c w)"
  by (simp_all add: exec_def result_def perform_def)

lemmas run_simps = exec_bind result_bind exec_perform result_perform

text \<open>A call that must succeed: its failure ends the program with the wrapped error.\<close>

definition try_call :: "syscall \<Rightarrow> (errno \<Rightarrow> 'e) \<Rightarrow> ('e + 'a) io \<Rightarrow> ('e + 'a) io" where
  "try_call c wrap k =
    State_Monad.bind (perform c)
      (\<lambda>r. case r of None \<Rightarrow> k | Some e \<Rightarrow> State_Monad.return (Inl (wrap e)))"

text \<open>The same for a program that returns an error or a value.\<close>

definition try_io :: "('d + 'b) io \<Rightarrow> ('d \<Rightarrow> 'e) \<Rightarrow> ('b \<Rightarrow> ('e + 'a) io) \<Rightarrow> ('e + 'a) io" where
  "try_io m wrap k =
    State_Monad.bind m
      (\<lambda>r. case r of Inl e \<Rightarrow> State_Monad.return (Inl (wrap e)) | Inr b \<Rightarrow> k b)"

text \<open>\<open>defer\<close>: the second program runs after the first on every path; its result is dropped.\<close>

definition deferred :: "'a io \<Rightarrow> 'b io \<Rightarrow> 'a io" where
  "deferred m d = State_Monad.bind m (\<lambda>r. State_Monad.bind d (\<lambda>_. State_Monad.return r))"

section \<open>Triples\<close>

text \<open>
  \<open>hoare P m Q\<close>: from every world in \<open>P\<close> the program \<open>m\<close> ends with a result and a world in \<open>Q\<close>. Every
  program here terminates, so this is total correctness. \<open>keeps P m\<close> is the case of an invariant.
\<close>

definition hoare :: "(world \<Rightarrow> bool) \<Rightarrow> 'a io \<Rightarrow> ('a \<Rightarrow> world \<Rightarrow> bool) \<Rightarrow> bool" where
  "hoare P m Q \<longleftrightarrow> (\<forall>w. P w \<longrightarrow> Q (result m w) (exec m w))"

abbreviation keeps :: "(world \<Rightarrow> bool) \<Rightarrow> 'a io \<Rightarrow> bool" where
  "keeps P m \<equiv> hoare P m (\<lambda>_. P)"

named_theorems io_rules \<open>composition rules for triples\<close>

lemma hoareD: "hoare P m Q \<Longrightarrow> P w \<Longrightarrow> Q (result m w) (exec m w)"
  by (simp add: hoare_def)

lemma hoareI: "(\<And>w. P w \<Longrightarrow> Q (result m w) (exec m w)) \<Longrightarrow> hoare P m Q"
  by (simp add: hoare_def)

lemma hoare_conseq: "hoare P m Q \<Longrightarrow> (\<And>w. P' w \<Longrightarrow> P w) \<Longrightarrow> (\<And>a w. Q a w \<Longrightarrow> Q' a w) \<Longrightarrow> hoare P' m Q'"
  by (simp add: hoare_def)

lemma hoare_bind: "hoare P m R \<Longrightarrow> (\<And>a. hoare (R a) (f a) Q) \<Longrightarrow> hoare P (State_Monad.bind m f) Q"
  by (simp add: hoare_def run_simps)

lemma keeps_bind [io_rules]: "keeps P m \<Longrightarrow> (\<And>a. keeps P (f a)) \<Longrightarrow> keeps P (State_Monad.bind m f)"
  by (rule hoare_bind)

lemma keeps_return [io_rules]: "keeps P (State_Monad.return a)"
  by (simp add: hoare_def)

lemma keeps_get [io_rules]: "keeps P State_Monad.get"
  by (simp add: hoare_def)

lemma keeps_if [io_rules]: "keeps P m \<Longrightarrow> keeps P n \<Longrightarrow> keeps P (if b then m else n)"
  by simp

lemma keeps_option [io_rules]: "keeps P m \<Longrightarrow> (\<And>a. keeps P (f a)) \<Longrightarrow> keeps P (case x of None \<Rightarrow> m | Some a \<Rightarrow> f a)"
  by (simp split: option.split)

lemma keeps_sum [io_rules]: "(\<And>a. keeps P (f a)) \<Longrightarrow> (\<And>b. keeps P (g b)) \<Longrightarrow> keeps P (case x of Inl a \<Rightarrow> f a | Inr b \<Rightarrow> g b)"
  by (simp split: sum.split)

lemma keeps_prod [io_rules]: "(\<And>a b. keeps P (f a b)) \<Longrightarrow> keeps P (case x of (a, b) \<Rightarrow> f a b)"
  by (simp split: prod.split)

lemma run_call_cases:
  obtains (dead) "w_dead w" "run_call c w = (Some EIO, w)"
  | (completed) "\<not> w_dead w" "refused c w = None" "run_call c w = (None, logged c None (effect c w))"
  | (refused) e where "\<not> w_dead w" "refused c w = Some e" "run_call c w = (Some e, logged c (Some e) w)"
  | (failed) e k where "\<not> w_dead w" "run_call c w = (Some e, logged c (Some e) (partial_effect k c w))"
  | (died) k where "\<not> w_dead w" "run_call c w = (Some EIO, logged c (Some EIO) ((partial_effect k c w)\<lparr>w_dead := True\<rparr>))"
  by (cases "w_dead w"; cases "w_env w (length (w_log w))"; cases "refused c w") (auto simp: run_call_def)

lemma call_success:
  assumes "result (perform c) w = None"
  shows "\<not> w_dead w" "refused c w = None" "exec (perform c) w = logged c None (effect c w)"
  using assms by (cases rule: run_call_cases [of w c]; simp add: run_simps)+

lemma keeps_try_call [io_rules]: "keeps P (perform c) \<Longrightarrow> keeps P k \<Longrightarrow> keeps P (try_call c wrap k)"
  unfolding try_call_def by (intro io_rules)

lemma keeps_try_io [io_rules]: "keeps P m \<Longrightarrow> (\<And>b. keeps P (k b)) \<Longrightarrow> keeps P (try_io m wrap k)"
  unfolding try_io_def by (intro io_rules)

lemma keeps_deferred [io_rules]: "keeps P m \<Longrightarrow> keeps P d \<Longrightarrow> keeps P (deferred m d)"
  unfolding deferred_def by (intro io_rules)

section \<open>Traces\<close>

text \<open>The calls a program made, with their results. A program only ever appends to the log.\<close>

definition trace :: "'a io \<Rightarrow> world \<Rightarrow> (syscall \<times> errno option) list" where
  "trace m w = drop (length (w_log w)) (w_log (exec m w))"

definition appends :: "'a io \<Rightarrow> bool" where
  "appends m \<longleftrightarrow> (\<forall>L. keeps (\<lambda>w. prefix L (w_log w)) m)"

lemma appendsI: "(\<And>L. keeps (\<lambda>w. prefix L (w_log w)) m) \<Longrightarrow> appends m"
  by (simp add: appends_def)

lemma effect_log [simp]: "w_log (effect c w) = w_log w" "w_log (partial_effect k c w) = w_log w"
proof -
  show e: "w_log (effect c w) = w_log w" for c w
    by (simp add: effect_def sync_effect_def close_effect_def split: syscall.split handle.split)
  show "w_log (partial_effect k c w) = w_log w"
    by (simp add: partial_effect_def e close_effect_def split: syscall.split handle.split)
qed

lemma run_call_log: "w_log (snd (run_call c w)) = w_log w @ (if w_dead w then [] else [(c, fst (run_call c w))])"
  by (cases rule: run_call_cases [of w c]) (simp_all add: logged_def)

lemma keeps_log_perform [io_rules]: "keeps (\<lambda>w. prefix L (w_log w)) (perform c)"
  by (simp add: hoare_def run_simps run_call_log)

lemma trace_log: "appends m \<Longrightarrow> w_log (exec m w) = w_log w @ trace m w"
proof -
  assume "appends m"
  then have "prefix (w_log w) (w_log (exec m w))"
    by (simp add: appends_def hoare_def)
  then show ?thesis by (auto simp: trace_def elim: prefixE)
qed

lemma trace_return [simp]: "trace (State_Monad.return a) w = []"
  and trace_get [simp]: "trace State_Monad.get w = []"
  by (simp_all add: trace_def)

lemma trace_perform: "trace (perform c) w = (if w_dead w then [] else [(c, result (perform c) w)])"
  by (simp add: trace_def run_simps run_call_log)

lemma trace_call_success: "result (perform c) w = None \<Longrightarrow> trace (perform c) w = [(c, None)]"
  using call_success(1) by (simp add: trace_perform)

lemma trace_bind:
  assumes "appends m" "\<And>a. appends (f a)"
  shows "trace (State_Monad.bind m f) w = trace m w @ trace (f (result m w)) (exec m w)"
  using trace_log [OF assms(1), of w] trace_log [OF assms(2), of "result m w" "exec m w"]
  by (simp add: trace_def [of "State_Monad.bind m f"] run_simps)

end
