(* ===== verification/File_Path.thy ===== *)
theory File_Path
  imports Slug
begin

text \<open>
  The parts of \<open>path/filepath\<close> (on Unix) that the spool uses: \<open>Clean\<close>, \<open>Join\<close> and the lexical part of
  \<open>Abs\<close>; and the path methods of \<open>Root\<close> in \<open>internal/spool/writer.go\<close>.
\<close>

definition clean_step :: "bool \<Rightarrow> bytes list \<Rightarrow> bytes \<Rightarrow> bytes list" where
  "clean_step rooted out c =
    (if c = [] \<or> c = ''.'' then out
     else if c = ''..'' then
       (if out \<noteq> [] \<and> last out \<noteq> ''..'' then butlast out
        else if rooted then out else out @ [c])
     else out @ [c])"

definition clean_parts :: "bool \<Rightarrow> bytes list \<Rightarrow> bytes list" where
  "clean_parts rooted cs = foldl (clean_step rooted) [] cs"

definition is_rooted :: "bytes \<Rightarrow> bool" where
  "is_rooted p \<longleftrightarrow> p \<noteq> [] \<and> hd p = CHR ''/''"

definition path_clean :: "bytes \<Rightarrow> bytes" where
  "path_clean p =
    (if p = [] then ''.''
     else (let s = join_bytes ''/'' (clean_parts (is_rooted p) (split_bytes (CHR ''/'') p)) in
       if is_rooted p then ''/'' @ s else if s = [] then ''.'' else s))"

definition path_join :: "bytes list \<Rightarrow> bytes" where
  "path_join es =
    (case dropWhile (\<lambda>e. e = []) es of [] \<Rightarrow> [] | fs \<Rightarrow> path_clean (join_bytes ''/'' fs))"

definition eventsDir :: "bytes \<Rightarrow> bytes" where
  "eventsDir r = path_join [r, ''events'']"

definition eventsPath :: "bytes \<Rightarrow> bytes \<Rightarrow> bytes" where
  "eventsPath r source = path_join [eventsDir r, source @ ''.jsonl'']"

definition writerLockDir :: "bytes \<Rightarrow> bytes" where
  "writerLockDir r = path_join [r, ''locks'', ''writers'']"

definition writerLockPath :: "bytes \<Rightarrow> bytes \<Rightarrow> bytes" where
  "writerLockPath r source = path_join [writerLockDir r, source @ ''.lock'']"

lemma is_rooted_simps [simp]: "\<not> is_rooted []" "is_rooted (c # t) \<longleftrightarrow> c = CHR ''/''"
  by (simp_all add: is_rooted_def)

section \<open>Cleaning is stable\<close>

text \<open>A component that cleaning keeps as it is, and a cleaned list of components.\<close>

definition plain_part :: "bytes \<Rightarrow> bool" where
  "plain_part c \<longleftrightarrow> c \<noteq> [] \<and> c \<noteq> ''.'' \<and> c \<noteq> ''..'' \<and> CHR ''/'' \<notin> set c"

definition clean_list :: "bool \<Rightarrow> bytes list \<Rightarrow> bool" where
  "clean_list rooted cs \<longleftrightarrow>
     (\<exists>n qs. cs = replicate n ''..'' @ qs \<and> list_all plain_part qs \<and> (rooted \<longrightarrow> n = 0))"

lemma clean_step_clean:
  assumes "clean_list rooted out" "CHR ''/'' \<notin> set c"
  shows "clean_list rooted (clean_step rooted out c)"
proof -
  obtain n qs where o: "out = replicate n ''..'' @ qs" "list_all plain_part qs" "rooted \<longrightarrow> n = 0"
    using assms(1) by (auto simp: clean_list_def)
  consider "c = [] \<or> c = ''.''" | "c = ''..''" "qs = []" | "c = ''..''" "qs \<noteq> []" | "plain_part c"
    using assms(2) by (auto simp: plain_part_def)
  then show ?thesis
  proof cases
    case 2
    then have out: "out = replicate n ''..''" using o(1) by simp
    show ?thesis
    proof (cases rooted)
      case True
      then show ?thesis using assms(1) o(3) out 2 by (simp add: clean_step_def)
    next
      case False
      then have "clean_step rooted out c = replicate (Suc n) ''..'' @ []"
        using 2 out by (cases n) (auto simp: clean_step_def replicate_append_same)
      then show ?thesis
        unfolding clean_list_def using False by (intro exI [of _ "Suc n"] exI [of _ "[]"]) simp
    qed
  next
    case 3
    then have "last out \<noteq> ''..''" "butlast out = replicate n ''..'' @ butlast qs"
      using o(1,2) last_in_set [of qs] by (auto simp: butlast_append list_all_iff plain_part_def)
    moreover have "list_all plain_part (butlast qs)"
      using o(2) by (auto simp: list_all_iff dest: in_set_butlastD)
    ultimately show ?thesis
      using 3 o unfolding clean_step_def clean_list_def by auto
  next
    case 4
    then have "clean_step rooted out c = replicate n ''..'' @ (qs @ [c])"
      using o(1) by (simp add: clean_step_def plain_part_def)
    then show ?thesis
      unfolding clean_list_def using o(2,3) 4 by (intro exI [of _ n] exI [of _ "qs @ [c]"]) simp
  qed (use assms(1) in \<open>auto simp: clean_step_def\<close>)
qed

lemma split_bytes_no_sep: "list_all (\<lambda>w. sep \<notin> set w) (split_bytes sep s)"
  by (induction s) (auto split: list.split)

lemma clean_parts_clean: "list_all (\<lambda>w. CHR ''/'' \<notin> set w) cs \<Longrightarrow> clean_list rooted (clean_parts rooted cs)"
proof (induction cs rule: rev_induct)
  case Nil
  then show ?case by (simp add: clean_parts_def clean_list_def)
next
  case (snoc c cs)
  then show ?case by (simp add: clean_parts_def clean_step_clean)
qed

lemma foldl_clean_plain: "list_all plain_part qs \<Longrightarrow> foldl (clean_step rooted) out qs = out @ qs"
  by (induction qs arbitrary: out) (auto simp: clean_step_def plain_part_def)

lemma foldl_clean_dots: "foldl (clean_step False) (replicate m ''..'') (replicate n ''..'') = replicate (m + n) ''..''"
proof (induction n arbitrary: m)
  case (Suc n)
  have "clean_step False (replicate m ''..'') ''..'' = replicate (Suc m) ''..''"
    by (cases m) (auto simp: clean_step_def replicate_append_same)
  then show ?case using Suc [of "Suc m"] by simp
qed simp

lemma clean_parts_id: "clean_list rooted cs \<Longrightarrow> clean_parts rooted cs = cs"
proof -
  assume "clean_list rooted cs"
  then obtain n qs where c: "cs = replicate n ''..'' @ qs" "list_all plain_part qs" "rooted \<longrightarrow> n = 0"
    by (auto simp: clean_list_def)
  then show ?thesis
    using foldl_clean_dots [of 0 n] by (cases rooted) (simp_all add: clean_parts_def foldl_clean_plain)
qed

lemma split_bytes_single: "sep \<notin> set w \<Longrightarrow> split_bytes sep w = [w]"
  by (induction w) auto

lemma split_join:
  "list_all (\<lambda>w. sep \<notin> set w) ws \<Longrightarrow> ws \<noteq> [] \<Longrightarrow> split_bytes sep (join_bytes [sep] ws) = ws"
proof (induction "[sep]" ws rule: join_bytes.induct)
  case (2 w)
  then show ?case by (simp add: split_bytes_single)
next
  case (3 w v ws)
  then show ?case using split_bytes_line [of sep w] by simp
qed simp

lemma join_bytes_snoc: "ws \<noteq> [] \<Longrightarrow> join_bytes sep (ws @ [w]) = join_bytes sep ws @ sep @ w"
  by (induction sep ws rule: join_bytes.induct) auto

lemma clean_list_nonempty_parts: "clean_list rooted cs \<Longrightarrow> c \<in> set cs \<Longrightarrow> c \<noteq> [] \<and> CHR ''/'' \<notin> set c"
proof -
  assume "clean_list rooted cs" "c \<in> set cs"
  then have "c = ''..'' \<or> plain_part c"
    by (auto simp: clean_list_def list_all_iff)
  then show ?thesis
    by (elim disjE) (simp_all add: plain_part_def)
qed

lemma join_clean_head:
  assumes "clean_list rooted cs" "cs \<noteq> []"
  shows "join_bytes ''/'' cs \<noteq> [] \<and> \<not> is_rooted (join_bytes ''/'' cs)"
proof -
  obtain c cs' where c: "cs = c # cs'" using assms(2) by (cases cs) auto
  then have "c \<noteq> []" "CHR ''/'' \<notin> set c"
    using clean_list_nonempty_parts [OF assms(1)] by auto
  then obtain x c' where "c = x # c'" "x \<noteq> CHR ''/''" by (cases c) auto
  then show ?thesis using c by (cases cs') (auto simp: is_rooted_def)
qed

text \<open>A cleaned path is rendered from a cleaned list of components.\<close>

definition render_path :: "bool \<Rightarrow> bytes list \<Rightarrow> bytes" where
  "render_path rooted cs =
    (if rooted then ''/'' @ join_bytes ''/'' cs else if cs = [] then ''.'' else join_bytes ''/'' cs)"

lemma split_path_clean: "clean_list rooted (clean_parts rooted (split_bytes (CHR ''/'') p))"
  by (intro clean_parts_clean split_bytes_no_sep)

lemma path_clean_render:
  assumes "p \<noteq> []"
  shows "path_clean p = render_path (is_rooted p) (clean_parts (is_rooted p) (split_bytes (CHR ''/'') p))"
  using assms join_clean_head [OF split_path_clean, of "is_rooted p" p]
  by (cases "is_rooted p") (auto simp: path_clean_def Let_def render_path_def)

lemma path_clean_shape:
  obtains rooted cs where "clean_list rooted cs" "path_clean p = render_path rooted cs"
proof (cases "p = []")
  case True
  then show ?thesis using that [of False "[]"] by (simp add: path_clean_def clean_list_def render_path_def)
next
  case False
  then show ?thesis by (intro that [OF split_path_clean path_clean_render])
qed

lemma path_clean_join:
  assumes "clean_list rooted cs" "cs \<noteq> []"
  shows "path_clean ((if rooted then ''/'' else []) @ join_bytes ''/'' cs) = (if rooted then ''/'' else []) @ join_bytes ''/'' cs"
proof -
  have sp: "split_bytes (CHR ''/'') (join_bytes ''/'' cs) = cs"
    using clean_list_nonempty_parts [OF assms(1)] assms(2) by (intro split_join) (auto simp: list_all_iff)
  have skip: "clean_parts r ([] # cs) = clean_parts r cs" for r
    by (simp add: clean_parts_def clean_step_def)
  show ?thesis
    using join_clean_head [OF assms] clean_parts_id [OF assms(1)] sp skip
    by (cases rooted) (simp_all add: path_clean_def Let_def)
qed

lemma path_clean_idem: "path_clean (path_clean p) = path_clean p"
proof -
  obtain rooted cs where s: "clean_list rooted cs" "path_clean p = render_path rooted cs"
    by (rule path_clean_shape)
  show ?thesis
  proof (cases "cs = []")
    case True
    then show ?thesis
      unfolding s(2) by (cases rooted) (simp_all add: render_path_def path_clean_def clean_parts_def clean_step_def)
  next
    case False
    then show ?thesis
      unfolding s(2) using path_clean_join [OF s(1)] by (cases rooted) (simp_all add: render_path_def)
  qed
qed

text \<open>One more component below a directory: appended after a separator, and nothing else.\<close>

definition under :: "bytes \<Rightarrow> bytes \<Rightarrow> bytes" where
  "under d c = (if d = ''.'' then c else if d = ''/'' then ''/'' @ c else d @ ''/'' @ c)"

lemma under_render:
  assumes "clean_list rooted cs"
  shows "under (render_path rooted cs) c = render_path rooted (cs @ [c])"
proof (cases "cs = []")
  case True
  then show ?thesis by (simp add: under_def render_path_def)
next
  case False
  then have ne: "join_bytes ''/'' cs \<noteq> []" "\<not> is_rooted (join_bytes ''/'' cs)"
    using join_clean_head [OF assms] by auto
  have "split_bytes (CHR ''/'') (join_bytes ''/'' cs) = cs"
    using clean_list_nonempty_parts [OF assms] False by (intro split_join) (auto simp: list_all_iff)
  moreover have "cs \<noteq> [''.'']"
  proof
    assume "cs = [''.'']"
    moreover obtain n qs where "cs = replicate n ''..'' @ qs" "list_all plain_part qs"
      using assms by (auto simp: clean_list_def)
    ultimately show False
      by (cases n) (auto simp: plain_part_def)
  qed
  ultimately have "join_bytes ''/'' cs \<noteq> ''.''"
    by auto
  moreover have "join_bytes ''/'' cs \<noteq> ''/''"
    using ne(2) by auto
  ultimately show ?thesis
    using False ne(1) by (simp add: under_def render_path_def join_bytes_snoc)
qed

lemma split_bytes_not_Nil: "split_bytes sep s \<noteq> []"
  by (cases s) (auto split: list.split)

lemma split_bytes_snoc: "sep \<notin> set w \<Longrightarrow> split_bytes sep (s @ sep # w) = split_bytes sep s @ [w]"
  by (induction s) (auto simp: split_bytes_single split_bytes_not_Nil split: list.split)

lemma path_clean_append:
  assumes "r \<noteq> []" "plain_part c"
  shows "path_clean (r @ ''/'' @ c) = under (path_clean r) c"
proof -
  have c: "CHR ''/'' \<notin> set c" "c \<noteq> []" using assms(2) by (simp_all add: plain_part_def)
  have rooted: "is_rooted (r @ ''/'' @ c) = is_rooted r"
    using assms(1) by (cases r) simp_all
  have "clean_parts b (cs @ [c]) = clean_parts b cs @ [c]" for b cs
    using foldl_clean_plain [of "[c]" b] assms(2) by (simp add: clean_parts_def)
  then show ?thesis
    using assms(1) split_bytes_snoc [OF c(1), of r] rooted
    by (simp add: path_clean_render under_render split_path_clean)
qed

lemma clean_list_plain: "list_all plain_part qs \<Longrightarrow> clean_list rooted qs"
  unfolding clean_list_def by (intro exI [of _ 0] exI [of _ qs]) simp

lemma path_clean_plain: "plain_part c \<Longrightarrow> path_clean c = c"
  using path_clean_join [OF clean_list_plain [of "[c]" False]] by simp

lemma path_join_dir: "plain_part c \<Longrightarrow> path_join [r, c] = under (path_clean r) c"
  using path_clean_append [of r c] path_clean_plain [of c]
  by (cases "r = []") (simp_all add: path_join_def under_def path_clean_def [of "[]"] plain_part_def)

lemma path_join_dir_dir:
  assumes "plain_part c" "plain_part d"
  shows "path_join [r, c, d] = under (under (path_clean r) c) d"
proof (cases "r = []")
  case True
  then show ?thesis
    using path_clean_append [OF _ assms(2), of c] path_clean_plain [OF assms(1)] assms(1)
    by (simp add: path_join_def plain_part_def under_def [of "''.''"] path_clean_def [of "[]"])
next
  case False
  then show ?thesis
    using path_clean_append [OF _ assms(2), of "r @ ''/'' @ c"] path_clean_append [OF False assms(1)]
    by (simp add: path_join_def)
qed

lemma path_join_clean: "plain_part c \<Longrightarrow> path_join [path_clean p, c] = under (path_clean p) c"
  by (simp add: path_join_dir path_clean_idem)

section \<open>Paths of a source\<close>

lemma under_inj [simp]: "under d a = under d b \<longleftrightarrow> a = b"
  by (simp add: under_def)

lemma slug_file_plain:
  assumes "validate_slug role s = None" "CHR ''/'' \<notin> set ext" "length ext = 4 \<or> length ext = 5"
  shows "plain_part (s @ CHR ''.'' # ext)"
proof -
  have "slug_pattern s"
    using assms(1) by (simp add: validate_slug_accepts)
  then have s: "s \<noteq> []" "CHR ''/'' \<notin> set s"
    using slug_pattern_all slug_rest_not_sep by (cases s; fastforce)+
  then have "length (s @ CHR ''.'' # ext) \<noteq> length ''.''" "length (s @ CHR ''.'' # ext) \<noteq> length ''..''"
    using assms(3) by auto
  then have "s @ CHR ''.'' # ext \<noteq> ''.''" "s @ CHR ''.'' # ext \<noteq> ''..''"
    by metis+
  then show ?thesis
    using s assms(2) by (simp add: plain_part_def)
qed

lemma spool_dirs:
  "eventsDir r = under (path_clean r) ''events''"
  "writerLockDir r = under (under (path_clean r) ''locks'') ''writers''"
proof -
  have "plain_part ''events''" "plain_part ''locks''" "plain_part ''writers''"
    by (simp_all add: plain_part_def)
  then show "eventsDir r = under (path_clean r) ''events''"
    "writerLockDir r = under (under (path_clean r) ''locks'') ''writers''"
    by (simp_all only: eventsDir_def writerLockDir_def path_join_dir path_join_dir_dir)
qed

lemma path_join_cleaned: "\<exists>p. path_join (r # e # es) = path_clean p" if "e \<noteq> []"
  using that by (auto simp: path_join_def split: list.split)

lemma spool_dirs_clean: "path_clean (eventsDir r) = eventsDir r" "path_clean (writerLockDir r) = writerLockDir r"
  using path_join_cleaned [of "''events''" r "[]"] path_join_cleaned [of "''locks''" r "[''writers'']"]
  by (auto simp: eventsDir_def writerLockDir_def path_clean_idem)

lemma source_paths:
  assumes "validate_slug ''source'' s = None" "validate_slug ''source'' t = None"
  shows "eventsPath r s = under (eventsDir r) (s @ ''.jsonl'')
    \<and> writerLockPath r s = under (writerLockDir r) (s @ ''.lock'')
    \<and> (eventsPath r s = eventsPath r t \<longleftrightarrow> s = t) \<and> (writerLockPath r s = writerLockPath r t \<longleftrightarrow> s = t)"
proof -
  have "eventsPath r u = under (eventsDir r) (u @ ''.jsonl'')" "writerLockPath r u = under (writerLockDir r) (u @ ''.lock'')"
    if "validate_slug ''source'' u = None" for u
    using slug_file_plain [OF that, of "''jsonl''"] slug_file_plain [OF that, of "''lock''"]
    by (simp_all add: eventsPath_def writerLockPath_def path_join_dir spool_dirs_clean)
  then show ?thesis
    using assms by simp
qed

text \<open>
  C35. The paths a validated source is given, below the cleaned root: for every root (it may be empty,
  relative or unclean) the spool is exactly \<open>events/<source>.jsonl\<close> and the lock file exactly
  \<open>locks/writers/<source>.lock\<close> below \<open>filepath.Clean\<close> of the root. Each of the components is a plain
  name, without a separator and other than \<open>.\<close> and \<open>..\<close>, so a source cannot name anything outside the
  root, and two sources never share a file.
\<close>

theorem source_paths_contained:
  assumes "validate_slug ''source'' s = None" "validate_slug ''source'' t = None"
  shows "eventsPath r s = under (under (path_clean r) ''events'') (s @ ''.jsonl'')
    \<and> writerLockPath r s = under (under (under (path_clean r) ''locks'') ''writers'') (s @ ''.lock'')
    \<and> list_all (\<lambda>c. c \<noteq> [] \<and> c \<noteq> ''.'' \<and> c \<noteq> ''..'' \<and> CHR ''/'' \<notin> set c)
        [''events'', ''locks'', ''writers'', s @ ''.jsonl'', s @ ''.lock'']
    \<and> (eventsPath r s = eventsPath r t \<longleftrightarrow> s = t) \<and> (writerLockPath r s = writerLockPath r t \<longleftrightarrow> s = t)"
proof -
  have "list_all plain_part [''events'', ''locks'', ''writers'', s @ ''.jsonl'', s @ ''.lock'']"
    using slug_file_plain [OF assms(1), of "''jsonl''"] slug_file_plain [OF assms(1), of "''lock''"]
    by (simp add: plain_part_def)
  then have "list_all (\<lambda>c. c \<noteq> [] \<and> c \<noteq> ''.'' \<and> c \<noteq> ''..'' \<and> CHR ''/'' \<notin> set c)
      [''events'', ''locks'', ''writers'', s @ ''.jsonl'', s @ ''.lock'']"
    unfolding plain_part_def .
  then show ?thesis
    using source_paths [OF assms, of r] unfolding spool_dirs by blast
qed

theorem source_paths_contained_witness:
  "eventsPath ''/srv//.agent/'' ''ci'' = ''/srv/.agent/events/ci.jsonl''
    \<and> writerLockPath [] ''ci'' = ''locks/writers/ci.lock''"
proof -
  have ci: "validate_slug ''source'' ''ci'' = None"
    by (simp add: validate_slug_accepts slug_rest_def slug_first_def MaxSlugLen_def)
  have "path_clean ''/srv//.agent/'' = ''/srv/.agent''" "path_clean [] = ''.''"
    by (simp_all add: path_clean_def clean_parts_def clean_step_def)
  then show ?thesis
    using source_paths_contained [OF ci ci, of "''/srv//.agent/''"] source_paths_contained [OF ci ci, of "[]"]
    by (simp add: under_def)
qed

end
