(* ===== verification/Durability.thy ===== *)
theory Durability
  imports Os_World Mount_Info File_Path
begin

text \<open>
  \<open>internal/durability\<close>: the startup probe that decides which guarantee a directory supports, and the
  syncs at that guarantee, on Linux (\<open>sync_linux.go\<close>) and macOS (\<open>sync_darwin.go\<close>). Programs run over
  \<^theory_text>\<open>Os_World\<close>; a returned error is the left side of a sum, with the wrapping the code gives it.
\<close>

section \<open>Data\<close>

text \<open>A \<open>Mode\<close> is a string; the zero value of an unprobed syncer is the empty one.\<close>

type_synonym mode = bytes

definition HostLoss :: mode where "HostLoss = ''host-loss''"
definition ProcessCrash :: mode where "ProcessCrash = ''process-crash''"

record syncer =
  sy_dir :: bytes
  sy_device :: "64 word"
  sy_mode :: mode
  sy_filesystem :: bytes

definition zero_syncer :: syncer where
  "zero_syncer = \<lparr>sy_dir = [], sy_device = 0, sy_mode = [], sy_filesystem = []\<rparr>"

datatype dur_error =
    ResolveFailed errno
  | InspectFailed dur_error
  | SysError errno
  | UnknownFilesystem bytes
  | NetworkFilesystem bytes
  | DeviceFailed errno
  | CreateProbeFailed errno
  | OpenDirFailed errno
  | WriteProbeFailed errno
  | ProbeSyncFailed errno
  | DirProbeSyncFailed errno
  | OrdinarySyncFailed errno
  | OrdinaryDirSyncFailed errno
  | CloseProbeFailed errno
  | RemoveProbeFailed errno
  | CommitRemovalFailed errno
  | Unprobed
  | ForeignFilesystem
  | StatFailed errno
  | SyncDirFailed errno

section \<open>Which filesystem\<close>

definition file_abs :: "bytes \<Rightarrow> (errno + bytes) io" where
  "file_abs p =
    (if is_rooted p then State_Monad.return (Inr (path_clean p))
     else try_call Getwd (\<lambda>e. e)
            (State_Monad.bind State_Monad.get
              (\<lambda>w. State_Monad.return (Inr (path_join [h_cwd (w_host w), p])))))"

definition deviceOf :: "bytes \<Rightarrow> (errno + 64 word) io" where
  "deviceOf p =
    try_call (StatPath p) (\<lambda>e. e)
      (State_Monad.bind State_Monad.get (\<lambda>w. State_Monad.return (Inr (h_path_device (w_host w) p))))"

definition inspectMountTable :: "bytes \<Rightarrow> (dur_error + filesystem) io" where
  "inspectMountTable dir =
    State_Monad.bind (perform ReadMountinfo)
      (\<lambda>r. case r of
         Some _ \<Rightarrow> State_Monad.return (Inr no_filesystem)
       | None \<Rightarrow>
           try_io (deviceOf dir) SysError
             (\<lambda>device. State_Monad.bind State_Monad.get
               (\<lambda>w. let (major, minor) = linuxDeviceNumbers device;
                        name = mountTypeForDevice (h_mountinfo (w_host w)) major minor
                    in State_Monad.return
                         (if name = [] then Inr no_filesystem
                          else (case classifyMountType name of
                                  (known, ok) \<Rightarrow> if ok then Inr known else Inl (UnknownFilesystem name))))))"

definition inspectLinux :: "bytes \<Rightarrow> (dur_error + filesystem) io" where
  "inspectLinux dir =
    State_Monad.bind (inspectMountTable dir)
      (\<lambda>r. case r of
         Inl e \<Rightarrow> State_Monad.return (Inl e)
       | Inr named \<Rightarrow>
           if fs_name named \<noteq> [] then State_Monad.return (Inr named)
           else try_call (Statfs dir) SysError
                  (State_Monad.bind State_Monad.get
                    (\<lambda>w. State_Monad.return (Inr (filesystemForMagic (ucast (h_fs_type (w_host w))))))))"

definition volatileFilesystems :: "bytes list" where
  "volatileFilesystems = [''tmpfs'', ''ramfs'', ''devfs'']"

definition networkFilesystems :: "bytes list" where
  "networkFilesystems = [''nfs'', ''smbfs'', ''afpfs'', ''webdav'', ''ftp'']"

definition mntLocal :: "32 word" where "mntLocal = 0x1000"

definition inspectDarwin :: "bytes \<Rightarrow> (dur_error + filesystem) io" where
  "inspectDarwin dir =
    try_call (Statfs dir) SysError
      (State_Monad.bind State_Monad.get
        (\<lambda>w. let name = takeWhile (\<lambda>c. bval c \<noteq> 0) (h_fs_name (w_host w));
                 local = (and (h_fs_flags (w_host w)) mntLocal \<noteq> 0)
             in State_Monad.return
                  (Inr \<lparr>fs_name = name, fs_network = \<not> local \<or> name \<in> set networkFilesystems,
                        fs_volatile = name \<in> set volatileFilesystems\<rparr>)))"

definition inspectFilesystem :: "bytes \<Rightarrow> (dur_error + filesystem) io" where
  "inspectFilesystem dir =
    State_Monad.bind State_Monad.get
      (\<lambda>w. case h_platform (w_host w) of Linux \<Rightarrow> inspectLinux dir | Darwin \<Rightarrow> inspectDarwin dir)"

section \<open>Syncs\<close>

text \<open>\<open>syncFileData\<close>: \<open>fsync\<close> in \<open>sync_linux.go\<close>, \<open>F_FULLFSYNC\<close> in \<open>sync_darwin.go\<close>.\<close>

definition full_sync :: "platform \<Rightarrow> handle \<Rightarrow> syscall" where
  "full_sync p f = (case p of Linux \<Rightarrow> Fsync f | Darwin \<Rightarrow> FullFsync f)"

definition syncFileData :: "handle \<Rightarrow> errno option io" where
  "syncFileData f =
    State_Monad.bind State_Monad.get (\<lambda>w. perform (full_sync (h_platform (w_host w)) f))"

definition fsync :: "handle \<Rightarrow> errno option io" where
  "fsync f = perform (Fsync f)"

definition syncAt :: "mode \<Rightarrow> handle \<Rightarrow> errno option io" where
  "syncAt m f = (if m = HostLoss then syncFileData f else fsync f)"

definition err_io :: "errno option io \<Rightarrow> (errno \<Rightarrow> 'e) \<Rightarrow> ('e + 'a) io \<Rightarrow> ('e + 'a) io" where
  "err_io m wrap k =
    State_Monad.bind m (\<lambda>r. case r of None \<Rightarrow> k | Some e \<Rightarrow> State_Monad.return (Inl (wrap e)))"

definition Verified :: "syncer \<Rightarrow> bool" where
  "Verified s \<longleftrightarrow> sy_mode s \<noteq> []"

definition VerifyFile :: "syncer \<Rightarrow> handle \<Rightarrow> (dur_error + unit) io" where
  "VerifyFile s f =
    (if \<not> Verified s then State_Monad.return (Inl Unprobed)
     else try_call (Stat f) StatFailed
            (State_Monad.bind State_Monad.get
              (\<lambda>w. State_Monad.return
                 (if h_file_device (w_host w) f \<noteq> sy_device s then Inl ForeignFilesystem else Inr ()))))"

definition SyncFile :: "syncer \<Rightarrow> handle \<Rightarrow> (dur_error + unit) io" where
  "SyncFile s f =
    (if \<not> Verified s then State_Monad.return (Inl Unprobed)
     else err_io (syncAt (sy_mode s) f) SysError (State_Monad.return (Inr ())))"

definition SyncDir :: "syncer \<Rightarrow> bytes \<Rightarrow> (dur_error + unit) io" where
  "SyncDir s dir =
    (if \<not> Verified s then State_Monad.return (Inl Unprobed)
     else try_call (OpenDir dir) SysError
            (deferred
              (try_io (VerifyFile s (DirHandle dir)) (\<lambda>e. e)
                (\<lambda>_. err_io (syncAt (sy_mode s) (DirHandle dir)) SyncDirFailed (State_Monad.return (Inr ()))))
              (perform (Close (DirHandle dir)))))"

section \<open>The probe\<close>

definition isUnsupported :: "errno \<Rightarrow> bool" where
  "isUnsupported e \<longleftrightarrow> e \<in> {ENOTSUP, EOPNOTSUPP, EINVAL, ENOSYS}"

definition verifyProcessCrash :: "bytes \<Rightarrow> (dur_error + mode) io" where
  "verifyProcessCrash dir =
    err_io (fsync ProbeFile) OrdinarySyncFailed
      (err_io (fsync (DirHandle dir)) OrdinaryDirSyncFailed (State_Monad.return (Inr ProcessCrash)))"

definition measureMode :: "bytes \<Rightarrow> filesystem \<Rightarrow> (dur_error + mode) io" where
  "measureMode dir volume =
    try_call (Write ProbeFile [CHR 0x0A]) WriteProbeFailed
      (if fs_volatile volume then verifyProcessCrash dir
       else State_Monad.bind (syncFileData ProbeFile)
         (\<lambda>r. case r of
            Some e \<Rightarrow>
              if isUnsupported e then verifyProcessCrash dir
              else State_Monad.return (Inl (ProbeSyncFailed e))
          | None \<Rightarrow>
              State_Monad.bind (syncFileData (DirHandle dir))
                (\<lambda>r. case r of
                   None \<Rightarrow> State_Monad.return (Inr HostLoss)
                 | Some e \<Rightarrow>
                     if isUnsupported e then verifyProcessCrash dir
                     else State_Monad.return (Inl (DirProbeSyncFailed e)))))"

definition commitProbeRemoval :: "bytes \<Rightarrow> mode \<Rightarrow> (dur_error + mode) io" where
  "commitProbeRemoval dir m =
    try_call (Close ProbeFile) CloseProbeFailed
      (try_call RemoveProbe RemoveProbeFailed
        (err_io (syncAt m (DirHandle dir)) CommitRemovalFailed (State_Monad.return (Inr m))))"

definition probeMode :: "bytes \<Rightarrow> filesystem \<Rightarrow> (dur_error + mode) io" where
  "probeMode dir volume =
    try_call (CreateTemp dir) CreateProbeFailed
      (deferred
        (try_call (OpenDir dir) OpenDirFailed
          (deferred
            (try_io (measureMode dir volume) (\<lambda>e. e) (commitProbeRemoval dir))
            (perform (Close (DirHandle dir)))))
        (State_Monad.bind (perform (Close ProbeFile)) (\<lambda>_. perform RemoveProbe)))"

text \<open>\<open>Probe\<close>: resolve, inspect, and on a supported volume identify the device and measure.\<close>

definition probeVolume :: "bytes \<Rightarrow> filesystem \<Rightarrow> (dur_error + syncer) io" where
  "probeVolume absolute volume =
    (if fs_network volume then State_Monad.return (Inl (NetworkFilesystem (fs_name volume)))
     else try_io (deviceOf absolute) DeviceFailed
       (\<lambda>device. try_io (probeMode absolute volume) (\<lambda>e. e)
         (\<lambda>m. State_Monad.return
            (Inr \<lparr>sy_dir = absolute, sy_device = device, sy_mode = m, sy_filesystem = fs_name volume\<rparr>))))"

definition Probe :: "bytes \<Rightarrow> (dur_error + syncer) io" where
  "Probe dir =
    try_io (file_abs dir) ResolveFailed
      (\<lambda>absolute. try_io (inspectFilesystem absolute) InspectFailed (probeVolume absolute))"

section \<open>Inverting a successful run\<close>

lemma keeps_err_io [io_rules]: "keeps P m \<Longrightarrow> keeps P k \<Longrightarrow> keeps P (err_io m wrap k)"
  unfolding err_io_def by (intro io_rules)

lemma err_io_perform: "err_io (perform c) wrap k = try_call c wrap k"
  by (simp add: err_io_def try_call_def)

named_theorems io_defs \<open>the programs of the durability package\<close>

declare file_abs_def [io_defs] deviceOf_def [io_defs] inspectMountTable_def [io_defs] inspectLinux_def [io_defs]
  inspectDarwin_def [io_defs] inspectFilesystem_def [io_defs] syncFileData_def [io_defs] fsync_def [io_defs]
  syncAt_def [io_defs] VerifyFile_def [io_defs] SyncFile_def [io_defs] SyncDir_def [io_defs]
  verifyProcessCrash_def [io_defs] measureMode_def [io_defs] commitProbeRemoval_def [io_defs]
  probeMode_def [io_defs] probeVolume_def [io_defs] Probe_def [io_defs]

text \<open>What every single call keeps, every program built from calls keeps.\<close>

lemma keeps_platform [io_rules]: "keeps P m \<Longrightarrow> keeps P n \<Longrightarrow> keeps P (case x of Linux \<Rightarrow> m | Darwin \<Rightarrow> n)"
  by (simp split: platform.split)

lemma keeps_let [io_rules]: "(\<And>x. keeps P (f x)) \<Longrightarrow> keeps P (Let a f)"
  by (simp add: Let_def)

lemma programs_keep:
  assumes "\<And>c. keeps P (perform c)"
  shows "keeps P (deviceOf dir)" "keeps P (file_abs dir)" "keeps P (inspectFilesystem dir)"
    and "keeps P (syncFileData f)" "keeps P (fsync f)" "keeps P (syncAt m f)"
    and "keeps P (VerifyFile s f)" "keeps P (SyncFile s f)" "keeps P (SyncDir s dir)"
    and "keeps P (verifyProcessCrash dir)" "keeps P (measureMode dir volume)"
    and "keeps P (commitProbeRemoval dir m)" "keeps P (probeMode dir volume)"
    and "keeps P (probeVolume dir volume)" "keeps P (Probe dir)"
  unfolding io_defs by (intro io_rules assms allI impI)+

lemma programs_append:
  shows "appends (deviceOf dir)" "appends (file_abs dir)" "appends (inspectFilesystem dir)"
    and "appends (syncFileData f)" "appends (fsync f)" "appends (syncAt m f)"
    and "appends (VerifyFile s f)" "appends (SyncFile s f)" "appends (SyncDir s dir)"
    and "appends (verifyProcessCrash dir)" "appends (measureMode dir volume)"
    and "appends (commitProbeRemoval dir m)" "appends (probeMode dir volume)"
    and "appends (probeVolume dir volume)" "appends (Probe dir)"
  by (intro appendsI programs_keep keeps_log_perform)+

lemma appends_basic [simp]:
  "appends (perform c)" "appends (State_Monad.return a)" "appends State_Monad.get"
  by (intro appendsI io_rules)+

lemma effect_host [simp]: "w_host (effect c w) = w_host w" "w_host (partial_effect k c w) = w_host w"
proof -
  show e: "w_host (effect c w) = w_host w" for c w
    by (simp add: effect_def sync_effect_def close_effect_def split: syscall.split handle.split)
  show "w_host (partial_effect k c w) = w_host w"
    by (simp add: partial_effect_def e close_effect_def split: syscall.split handle.split)
qed

lemma run_call_host [simp]: "w_host (snd (run_call c w)) = w_host w"
  by (cases rule: run_call_cases [of w c]) (simp_all add: logged_def)

lemma keeps_host_perform: "keeps (\<lambda>w. w_host w = h) (perform c)"
  by (simp add: hoare_def run_simps)

lemma host_programs [simp]:
  "w_host (exec (perform c) w) = w_host w" "w_host (exec (syncAt m f) w) = w_host w"
  "w_host (exec (measureMode dir volume) w) = w_host w" "w_host (exec (deviceOf dir) w) = w_host w"
  "w_host (exec (file_abs dir) w) = w_host w" "w_host (exec (inspectFilesystem dir) w) = w_host w"
  using programs_keep [OF keeps_host_perform] keeps_host_perform by (auto simp: hoare_def)

text \<open>One step of a successful run: the call succeeded, and the rest ran from there.\<close>

lemma try_call_InrE:
  assumes "result (try_call c wrap k) w = Inr v"
  obtains "result (perform c) w = None" "result k (exec (perform c) w) = Inr v"
    "exec (try_call c wrap k) w = exec k (exec (perform c) w)"
    "appends k \<Longrightarrow> trace (try_call c wrap k) w = (c, None) # trace k (exec (perform c) w)"
proof (cases "result (perform c) w")
  case None
  have r: "exec (try_call c wrap k) w = exec k (exec (perform c) w)"
    "result (try_call c wrap k) w = result k (exec (perform c) w)"
    using None by (simp_all add: try_call_def exec_bind result_bind)
  then have "trace (try_call c wrap k) w = (c, None) # trace k (exec (perform c) w)" if "appends k"
    using trace_log [OF that, of "exec (perform c) w"] trace_call_success [OF None] trace_log [of "perform c" w]
    by (simp add: trace_def [of "try_call c wrap k"])
  then show ?thesis
    using None assms r by (intro that) simp_all
next
  case (Some e)
  then show ?thesis using assms by (simp add: try_call_def run_simps)
qed

lemma try_io_InrE:
  assumes "result (try_io m wrap k) w = Inr v"
  obtains b where "result m w = Inr b" "result (k b) (exec m w) = Inr v"
    "exec (try_io m wrap k) w = exec (k b) (exec m w)"
    "appends m \<Longrightarrow> appends (k b) \<Longrightarrow> trace (try_io m wrap k) w = trace m w @ trace (k b) (exec m w)"
proof (cases "result m w")
  case (Inr b)
  have r: "exec (try_io m wrap k) w = exec (k b) (exec m w)" "result (try_io m wrap k) w = result (k b) (exec m w)"
    using Inr by (simp_all add: try_io_def exec_bind result_bind)
  then have "trace (try_io m wrap k) w = trace m w @ trace (k b) (exec m w)" if "appends m" "appends (k b)"
    using trace_log [OF that(1), of w] trace_log [OF that(2), of "exec m w"]
    by (simp add: trace_def [of "try_io m wrap k"])
  then show ?thesis
    using Inr assms r by (intro that [of b]) simp_all
qed (use assms in \<open>simp add: try_io_def run_simps\<close>)

lemma result_deferred [simp]: "result (deferred m d) w = result m w"
  by (simp add: deferred_def run_simps)

lemma exec_deferred: "exec (deferred m d) w = exec d (exec m w)"
  by (simp add: deferred_def run_simps)

lemma trace_deferred: "appends m \<Longrightarrow> appends d \<Longrightarrow> trace (deferred m d) w = trace m w @ trace d (exec m w)"
  using trace_log [of m w] trace_log [of d "exec m w"] by (simp add: trace_def [of "deferred m d"] exec_deferred)

lemma syncAt_call: "\<exists>c. syncAt m f = State_Monad.bind State_Monad.get (\<lambda>w. perform (c w))
    \<and> (\<forall>w. c w = (if m = HostLoss then full_sync (h_platform (w_host w)) f else Fsync f))"
  by (rule exI [of _ "\<lambda>w. if m = HostLoss then full_sync (h_platform (w_host w)) f else Fsync f"])
    (simp add: syncAt_def syncFileData_def fsync_def State_Monad.bind_def State_Monad.get_def)

definition mode_sync :: "platform \<Rightarrow> mode \<Rightarrow> handle \<Rightarrow> syscall" where
  "mode_sync p m f = (if m = HostLoss then full_sync p f else Fsync f)"

lemma run_syncAt:
  "result (syncAt m f) w = result (perform (mode_sync (h_platform (w_host w)) m f)) w"
  "exec (syncAt m f) w = exec (perform (mode_sync (h_platform (w_host w)) m f)) w"
  "trace (syncAt m f) w = trace (perform (mode_sync (h_platform (w_host w)) m f)) w"
  by (simp_all add: syncAt_def syncFileData_def fsync_def mode_sync_def run_simps trace_def)

lemma run_syncFileData:
  "result (syncFileData f) w = result (perform (full_sync (h_platform (w_host w)) f)) w"
  "exec (syncFileData f) w = exec (perform (full_sync (h_platform (w_host w)) f)) w"
  "trace (syncFileData f) w = trace (perform (full_sync (h_platform (w_host w)) f)) w"
  by (simp_all add: syncFileData_def run_simps trace_def)

lemma err_syncAt_InrE:
  assumes "result (err_io (syncAt m f) wrap k) w = Inr v"
  obtains "result (perform (mode_sync (h_platform (w_host w)) m f)) w = None"
    "result k (exec (perform (mode_sync (h_platform (w_host w)) m f)) w) = Inr v"
    "exec (err_io (syncAt m f) wrap k) w = exec k (exec (perform (mode_sync (h_platform (w_host w)) m f)) w)"
    "appends k \<Longrightarrow> trace (err_io (syncAt m f) wrap k) w
      = (mode_sync (h_platform (w_host w)) m f, None) # trace k (exec (perform (mode_sync (h_platform (w_host w)) m f)) w)"
proof -
  let ?c = "mode_sync (h_platform (w_host w)) m f"
  have same: "result (err_io (syncAt m f) wrap k) w = result (try_call ?c wrap k) w"
    "exec (err_io (syncAt m f) wrap k) w = exec (try_call ?c wrap k) w"
    by (simp_all add: err_io_def try_call_def run_simps run_syncAt)
  then have tr: "trace (err_io (syncAt m f) wrap k) w = trace (try_call ?c wrap k) w"
    by (simp add: trace_def)
  show ?thesis
    by (rule try_call_InrE [OF assms [unfolded same]]) (rule that; simp add: same tr)
qed

lemma verifyProcessCrash_success:
  assumes "result (verifyProcessCrash dir) w = Inr m"
  shows "m = ProcessCrash \<and> trace (verifyProcessCrash dir) w = [(Fsync ProbeFile, None), (Fsync (DirHandle dir), None)]"
proof -
  note r = assms [unfolded verifyProcessCrash_def fsync_def err_io_perform]
  have app: "appends (try_call c f (State_Monad.return (Inr ProcessCrash)))" for c and f :: "errno \<Rightarrow> dur_error"
    by (intro appendsI io_rules)
  show ?thesis
    unfolding verifyProcessCrash_def fsync_def err_io_perform
    by (rule try_call_InrE [OF r], erule try_call_InrE) (use app in simp)
qed

lemma measureMode_success:
  assumes "result (measureMode dir volume) w = Inr m"
  shows "(m = HostLoss \<and> \<not> fs_volatile volume
        \<and> {(full_sync (h_platform (w_host w)) ProbeFile, None), (full_sync (h_platform (w_host w)) (DirHandle dir), None)}
          \<subseteq> set (trace (measureMode dir volume) w))
    \<or> (m = ProcessCrash
        \<and> {(Fsync ProbeFile, None), (Fsync (DirHandle dir), None)} \<subseteq> set (trace (measureMode dir volume) w))"
proof -
  let ?c = "full_sync (h_platform (w_host w))"
  let ?s2 = "State_Monad.bind (syncFileData (DirHandle dir))
    (\<lambda>r. case r of None \<Rightarrow> State_Monad.return (Inr HostLoss)
       | Some e \<Rightarrow> if isUnsupported e then verifyProcessCrash dir else State_Monad.return (Inl (DirProbeSyncFailed e)))"
  let ?s1 = "State_Monad.bind (syncFileData ProbeFile)
    (\<lambda>r. case r of Some e \<Rightarrow> if isUnsupported e then verifyProcessCrash dir else State_Monad.return (Inl (ProbeSyncFailed e))
       | None \<Rightarrow> ?s2)"
  let ?k = "if fs_volatile volume then verifyProcessCrash dir else ?s1"
  have app: "appends (case r of None \<Rightarrow> State_Monad.return (Inr HostLoss)
       | Some e \<Rightarrow> if isUnsupported e then verifyProcessCrash dir else State_Monad.return (Inl (DirProbeSyncFailed e)))"
    "appends ?s2" "appends (case r of Some e \<Rightarrow> if isUnsupported e then verifyProcessCrash dir else State_Monad.return (Inl (ProbeSyncFailed e))
       | None \<Rightarrow> ?s2)" "appends ?k" for r
    by (intro appendsI io_rules programs_keep keeps_log_perform)+
  obtain w1 where w1: "w1 = exec (perform (Write ProbeFile [CHR 0x0A])) w" "w_host w1 = w_host w"
    and k: "result ?k w1 = Inr m" and tr: "set (trace ?k w1) \<subseteq> set (trace (measureMode dir volume) w)"
    using assms unfolding measureMode_def
    by (elim try_call_InrE) (use app(4) in fastforce)
  consider (weak) v where "result (verifyProcessCrash dir) v = Inr m"
      "set (trace (verifyProcessCrash dir) v) \<subseteq> set (trace ?k w1)"
    | (strong) "\<not> fs_volatile volume" "m = HostLoss" "{(?c ProbeFile, None), (?c (DirHandle dir), None)} \<subseteq> set (trace ?k w1)"
  proof (cases "fs_volatile volume")
    case True
    then show ?thesis using k that(1) [of w1] by simp
  next
    case nv: False
    let ?w2 = "exec (perform (?c ProbeFile)) w1"
    show ?thesis
    proof (cases "result (perform (?c ProbeFile)) w1")
      case (Some e)
      have "trace ?s1 w1 = trace (syncFileData ProbeFile) w1
          @ trace (if isUnsupported e then verifyProcessCrash dir else State_Monad.return (Inl (ProbeSyncFailed e))) ?w2"
        using Some by (subst trace_bind) (simp_all add: programs_append app(3) run_syncFileData w1(2))
      then show ?thesis
        using Some k nv that(1) [of ?w2] by (simp add: result_bind run_syncFileData w1(2) split: if_split_asm)
    next
      case None
      let ?w3 = "exec (perform (?c (DirHandle dir))) ?w2"
      have t1: "trace ?s1 w1 = (?c ProbeFile, None) # trace ?s2 ?w2"
        using None by (subst trace_bind) (simp_all add: programs_append app(3) run_syncFileData w1(2) trace_call_success)
      have k2: "result ?s2 ?w2 = Inr m"
        using k nv None by (simp add: result_bind [of "syncFileData ProbeFile"] run_syncFileData w1(2))
      show ?thesis
      proof (cases "result (perform (?c (DirHandle dir))) ?w2")
        case s2: None
        have "trace ?s2 ?w2 = [(?c (DirHandle dir), None)]"
          using s2 by (subst trace_bind) (simp_all add: programs_append app(1) run_syncFileData w1(2) trace_call_success)
        then show ?thesis
          using that(2) nv t1 k2 s2 by (simp add: result_bind run_syncFileData w1(2))
      next
        case (Some e)
        have "trace ?s2 ?w2 = trace (syncFileData (DirHandle dir)) ?w2
            @ trace (if isUnsupported e then verifyProcessCrash dir else State_Monad.return (Inl (DirProbeSyncFailed e))) ?w3"
          using Some by (subst trace_bind) (simp_all add: programs_append app(1) run_syncFileData w1(2))
        then show ?thesis
          using Some k2 nv t1 that(1) [of ?w3]
          by (auto simp: result_bind run_syncFileData w1(2) split: if_split_asm)
      qed
    qed
  qed
  then show ?thesis
  proof cases
    case (weak v)
    then show ?thesis using verifyProcessCrash_success [OF weak(1)] tr by auto
  next
    case strong
    then show ?thesis using tr by auto
  qed
qed

lemma commitProbeRemoval_success:
  assumes "result (commitProbeRemoval dir m) w = Inr m'"
  shows "m' = m \<and> trace (commitProbeRemoval dir m) w =
    [(Close ProbeFile, None), (RemoveProbe, None), (mode_sync (h_platform (w_host w)) m (DirHandle dir), None)]"
proof -
  let ?k2 = "err_io (syncAt m (DirHandle dir)) CommitRemovalFailed (State_Monad.return (Inr m))"
  let ?k1 = "try_call RemoveProbe RemoveProbeFailed ?k2"
  have app: "appends ?k2" "appends ?k1"
    by (intro appendsI io_rules programs_keep keeps_log_perform)+
  show ?thesis
    using assms unfolding commitProbeRemoval_def
    by (elim try_call_InrE err_syncAt_InrE) (simp add: app)
qed

lemma appends_deferred: "appends m \<Longrightarrow> appends d \<Longrightarrow> appends (deferred m d)"
  unfolding appends_def by (auto intro: keeps_deferred)

lemma probeMode_success:
  assumes "result (probeMode dir volume) w = Inr m"
  obtains w1 t1 t2 where "w_host w1 = w_host w" "result (measureMode dir volume) w1 = Inr m"
    "trace (probeMode dir volume) w = t1 @ trace (measureMode dir volume) w1
      @ [(Close ProbeFile, None), (RemoveProbe, None), (mode_sync (h_platform (w_host w)) m (DirHandle dir), None)] @ t2"
proof -
  let ?body = "try_io (measureMode dir volume) (\<lambda>e. e) (commitProbeRemoval dir)"
  let ?close = "perform (Close (DirHandle dir))"
  let ?cleanup = "State_Monad.bind (perform (Close ProbeFile)) (\<lambda>_. perform RemoveProbe)"
  let ?open = "try_call (OpenDir dir) OpenDirFailed (deferred ?body ?close)"
  have app: "appends ?body" "appends ?cleanup" "appends (deferred ?body ?close)" "appends ?open"
    "appends (deferred ?open ?cleanup)"
    by (intro appendsI io_rules programs_keep keeps_log_perform)+
  let ?w1 = "exec (perform (CreateTemp dir)) w"
  let ?w2 = "exec (perform (OpenDir dir)) ?w1"
  obtain r1: "result (deferred ?open ?cleanup) ?w1 = Inr m"
    and t1: "trace (probeMode dir volume) w = (CreateTemp dir, None) # trace (deferred ?open ?cleanup) ?w1"
    using assms unfolding probeMode_def by (rule try_call_InrE) (simp add: app)
  from r1 have "result ?open ?w1 = Inr m" by simp
  then obtain r2: "result (deferred ?body ?close) ?w2 = Inr m"
    and t2: "trace ?open ?w1 = (OpenDir dir, None) # trace (deferred ?body ?close) ?w2"
    by (rule try_call_InrE) (simp add: app)
  from r2 have "result ?body ?w2 = Inr m" by simp
  then obtain b where r3: "result (measureMode dir volume) ?w2 = Inr b"
    "result (commitProbeRemoval dir b) (exec (measureMode dir volume) ?w2) = Inr m"
    and t3: "trace ?body ?w2 = trace (measureMode dir volume) ?w2
      @ trace (commitProbeRemoval dir b) (exec (measureMode dir volume) ?w2)"
    by (rule try_io_InrE) (simp add: programs_append)
  note c = commitProbeRemoval_success [OF r3(2)]
  show ?thesis
  proof (rule that)
    show "w_host ?w2 = w_host w" "result (measureMode dir volume) ?w2 = Inr m"
      using r3 c by simp_all
    show "trace (probeMode dir volume) w = [(CreateTemp dir, None), (OpenDir dir, None)] @ trace (measureMode dir volume) ?w2
      @ [(Close ProbeFile, None), (RemoveProbe, None), (mode_sync (h_platform (w_host w)) m (DirHandle dir), None)]
      @ (trace ?close (exec ?body ?w2) @ trace ?cleanup (exec ?open ?w1))"
      using t1 t2 t3 c app by (simp add: trace_deferred)
  qed
qed

lemma probeVolume_success:
  assumes "result (probeVolume a v) w = Inr s"
  obtains w1 t where "w_host w1 = w_host w" "\<not> fs_network v" "sy_dir s = a" "sy_filesystem s = fs_name v"
    "result (probeMode a v) w1 = Inr (sy_mode s)" "trace (probeVolume a v) w = t @ trace (probeMode a v) w1"
proof -
  let ?last = "\<lambda>device m. State_Monad.return
      (Inr \<lparr>sy_dir = a, sy_device = device, sy_mode = m, sy_filesystem = fs_name v\<rparr>)"
  let ?tail = "\<lambda>device. try_io (probeMode a v) (\<lambda>e. e) (?last device)"
  have app: "appends (?tail d)" for d :: "64 word"
    by (intro appendsI io_rules programs_keep keeps_log_perform)+
  have nn: "\<not> fs_network v"
    using assms by (auto simp: probeVolume_def)
  then have pv: "probeVolume a v = try_io (deviceOf a) DeviceFailed ?tail"
    by (simp add: probeVolume_def)
  obtain d where r3: "result (?tail d) (exec (deviceOf a) w) = Inr s"
    and t3: "trace (probeVolume a v) w = trace (deviceOf a) w @ trace (?tail d) (exec (deviceOf a) w)"
    using assms unfolding pv by (rule try_io_InrE) (simp add: programs_append app)
  obtain m where r4: "result (probeMode a v) (exec (deviceOf a) w) = Inr m" "result (?last d m) (exec (probeMode a v) (exec (deviceOf a) w)) = Inr s"
    and t4: "trace (?tail d) (exec (deviceOf a) w) = trace (probeMode a v) (exec (deviceOf a) w)"
    using r3 by (rule try_io_InrE) (simp add: programs_append)
  then have "s = \<lparr>sy_dir = a, sy_device = d, sy_mode = m, sy_filesystem = fs_name v\<rparr>" by simp
  with r4(1) t3 t4 nn show ?thesis
    by (intro that [of "exec (deviceOf a) w"]) simp_all
qed

lemma Probe_success:
  assumes "result (Probe dir) w = Inr s"
  obtains volume w1 t where "w_host w1 = w_host w" "\<not> fs_network volume"
    "result (probeMode (sy_dir s) volume) w1 = Inr (sy_mode s)" "sy_filesystem s = fs_name volume"
    "trace (Probe dir) w = t @ trace (probeMode (sy_dir s) volume) w1"
proof -
  let ?insp = "\<lambda>absolute. try_io (inspectFilesystem absolute) InspectFailed (probeVolume absolute)"
  have app: "appends (?insp a)" for a
    by (intro appendsI io_rules programs_keep keeps_log_perform)+
  obtain a where r1: "result (?insp a) (exec (file_abs dir) w) = Inr s"
    and t1: "trace (Probe dir) w = trace (file_abs dir) w @ trace (?insp a) (exec (file_abs dir) w)"
    using assms unfolding Probe_def by (rule try_io_InrE) (simp add: programs_append app)
  let ?w1 = "exec (file_abs dir) w"
  let ?w2 = "exec (inspectFilesystem a) ?w1"
  obtain v where r2: "result (probeVolume a v) ?w2 = Inr s"
    and t2: "trace (?insp a) ?w1 = trace (inspectFilesystem a) ?w1 @ trace (probeVolume a v) ?w2"
    using r1 by (rule try_io_InrE) (simp add: programs_append)
  show ?thesis
  proof (rule probeVolume_success [OF r2])
    fix w1 t assume "w_host w1 = w_host ?w2" "\<not> fs_network v" "sy_dir s = a" "sy_filesystem s = fs_name v"
      "result (probeMode a v) w1 = Inr (sy_mode s)" "trace (probeVolume a v) ?w2 = t @ trace (probeMode a v) w1"
    then show ?thesis
      using t1 t2 by (intro that [of w1 v "trace (file_abs dir) w @ trace (inspectFilesystem a) ?w1 @ t"]) simp_all
  qed
qed

lemma VerifyFile_success:
  assumes "result (VerifyFile s f) w = Inr b"
  shows "Verified s" "h_file_device (w_host w) f = sy_device s" "trace (VerifyFile s f) w = [(Stat f, None)]"
    "exec (VerifyFile s f) w = exec (perform (Stat f)) w"
proof -
  let ?k = "State_Monad.bind State_Monad.get (\<lambda>w. State_Monad.return
      (if h_file_device (w_host w) f \<noteq> sy_device s then Inl ForeignFilesystem else Inr ()))"
  have app: "appends ?k" by (intro appendsI io_rules)
  have tk: "trace ?k v = []" for v
    by (simp add: trace_def exec_bind)
  show v: "Verified s" using assms by (auto simp: VerifyFile_def split: if_split_asm)
  then have d: "VerifyFile s f = try_call (Stat f) StatFailed ?k" by (simp add: VerifyFile_def)
  show "h_file_device (w_host w) f = sy_device s" "trace (VerifyFile s f) w = [(Stat f, None)]"
    "exec (VerifyFile s f) w = exec (perform (Stat f)) w"
    using assms unfolding d
    by (elim try_call_InrE; simp add: app tk result_bind exec_bind split: if_split_asm)+
qed

lemma host_VerifyFile [simp]: "w_host (exec (VerifyFile s f) w) = w_host w"
  using programs_keep(7) [OF keeps_host_perform] by (auto simp: hoare_def)

section \<open>Properties\<close>

text \<open>
  C22. A probe reports only what it executed. If it returns a syncer, the syncer is verified and its mode
  is one of the two; host-loss is reported only after the platform's full-barrier sync succeeded in
  this run on both the probe file and the directory, and process-crash only after the ordinary sync
  succeeded on both. Whatever the environment answers, in whatever order.
\<close>

theorem Probe_reports_what_it_ran:
  assumes "result (Probe dir) w = Inr s"
  shows "Verified s \<and>
    (sy_mode s = HostLoss \<and>
      {(full_sync (h_platform (w_host w)) ProbeFile, None),
       (full_sync (h_platform (w_host w)) (DirHandle (sy_dir s)), None)} \<subseteq> set (trace (Probe dir) w)
    \<or> sy_mode s = ProcessCrash \<and>
      {(Fsync ProbeFile, None), (Fsync (DirHandle (sy_dir s)), None)} \<subseteq> set (trace (Probe dir) w))"
proof (rule Probe_success [OF assms])
  fix volume w1 t
  assume h: "w_host w1 = w_host w" and p: "result (probeMode (sy_dir s) volume) w1 = Inr (sy_mode s)"
    and t: "trace (Probe dir) w = t @ trace (probeMode (sy_dir s) volume) w1"
  show ?thesis
  proof (rule probeMode_success [OF p])
    fix w2 t1 t2
    assume w2: "w_host w2 = w_host w1" "result (measureMode (sy_dir s) volume) w2 = Inr (sy_mode s)"
      and "trace (probeMode (sy_dir s) volume) w1 = t1 @ trace (measureMode (sy_dir s) volume) w2
        @ [(Close ProbeFile, None), (RemoveProbe, None), (mode_sync (h_platform (w_host w1)) (sy_mode s) (DirHandle (sy_dir s)), None)] @ t2"
    then have sub: "set (trace (measureMode (sy_dir s) volume) w2) \<subseteq> set (trace (Probe dir) w)"
      using t by auto
    have "Verified s" if "sy_mode s = HostLoss \<or> sy_mode s = ProcessCrash"
      using that by (auto simp: Verified_def HostLoss_def ProcessCrash_def)
    then show ?thesis
      using measureMode_success [OF w2(2)] sub unfolding w2(1) h by (elim disjE) auto
  qed
qed

text \<open>A Linux host with an ext4 root whose mount table cannot be read, where everything else works.\<close>

definition sample_host :: host where
  "sample_host = \<lparr>h_platform = Linux, h_root = ''/srv'', h_events_dir = ''/srv/events'', h_cwd = ''/'', h_mountinfo = [],
     h_path_device = (\<lambda>_. 0x801), h_file_device = (\<lambda>_. 0x801), h_regular = (\<lambda>_. True), h_fs_type = 0xef53,
     h_fs_name = [], h_fs_flags = 0\<rparr>"

definition sample_world :: world where
  "sample_world = \<lparr>w_host = sample_host, w_env = (\<lambda>n. if n = 0 then Fail ENOENT 0 else Done), w_log = [], w_dead = False,
     w_data = [], w_durable = 0, w_dir_exists = False, w_file_exists = False, w_dir_entry_durable = False,
     w_file_entry_durable = False, w_lock = None\<rparr>"

definition sample_syncer :: syncer where
  "sample_syncer = \<lparr>sy_dir = ''/srv'', sy_device = 0x801, sy_mode = HostLoss, sy_filesystem = ''ext4''\<rparr>"

lemmas run_eval = run_simps run_call_def effect_def sync_effect_def close_effect_def reaches_storage_def
  partial_effect_def refused_def logged_def try_call_def try_io_def err_io_def deferred_def full_sync_def

lemma sample_probe: "result (Probe ''/srv'') sample_world = Inr sample_syncer"
  by (simp add: io_defs run_eval sample_world_def sample_host_def sample_syncer_def is_rooted_def path_clean_def
      clean_parts_def clean_step_def no_filesystem_def filesystemForMagic_def filesystemMagics_def net_def vol_def loc_def)

theorem Probe_reports_what_it_ran_witness:
  "Verified sample_syncer \<and> (Fsync ProbeFile, None) \<in> set (trace (Probe ''/srv'') sample_world)"
  using Probe_reports_what_it_ran [OF sample_probe]
  by (auto simp: sample_syncer_def HostLoss_def ProcessCrash_def full_sync_def sample_world_def sample_host_def)

text \<open>
  C23. A successful probe leaves nothing behind: it closed and unlinked the probe file and then committed
  the unlink with a successful sync of the directory at the very mode it reports, each of these the
  next call after the other.
\<close>

theorem Probe_commits_removal:
  assumes "result (Probe dir) w = Inr s"
  shows "\<exists>t1 t2. trace (Probe dir) w = t1 @ [(Close ProbeFile, None), (RemoveProbe, None),
    (if sy_mode s = HostLoss then full_sync (h_platform (w_host w)) (DirHandle (sy_dir s))
     else Fsync (DirHandle (sy_dir s)), None)] @ t2"
proof (rule Probe_success [OF assms])
  fix volume w1 t
  assume h: "w_host w1 = w_host w" and p: "result (probeMode (sy_dir s) volume) w1 = Inr (sy_mode s)"
    and t: "trace (Probe dir) w = t @ trace (probeMode (sy_dir s) volume) w1"
  show ?thesis
    by (rule probeMode_success [OF p]) (unfold t h mode_sync_def, metis append.assoc)
qed

theorem Probe_commits_removal_witness:
  "(RemoveProbe, None) \<in> set (trace (Probe ''/srv'') sample_world)"
  using Probe_commits_removal [OF sample_probe] by auto

text \<open>
  A probe never promises more than the volume allows: it refuses a network filesystem, and on a
  volatile one it reports process-crash whatever the sync primitives answered.
\<close>

theorem probeVolume_limits:
  assumes "result (probeVolume a v) w = Inr s"
  shows "\<not> fs_network v \<and> (fs_volatile v \<longrightarrow> sy_mode s = ProcessCrash)"
proof (rule probeVolume_success [OF assms])
  fix w1 assume nn: "\<not> fs_network v" and p: "result (probeMode a v) w1 = Inr (sy_mode s)"
  show ?thesis
  proof (rule probeMode_success [OF p])
    fix w2 assume "result (measureMode a v) w2 = Inr (sy_mode s)"
    from measureMode_success [OF this] nn show ?thesis by auto
  qed
qed

theorem probeVolume_limits_witness:
  "\<exists>s. result (probeVolume ''/tmp'' (vol ''tmpfs'')) (sample_world\<lparr>w_env := (\<lambda>_. Done)\<rparr>) = Inr s \<and> sy_mode s = ProcessCrash"
proof -
  have s: "result (probeVolume ''/tmp'' (vol ''tmpfs'')) (sample_world\<lparr>w_env := (\<lambda>_. Done)\<rparr>) =
      Inr \<lparr>sy_dir = ''/tmp'', sy_device = 0x801, sy_mode = ProcessCrash, sy_filesystem = ''tmpfs''\<rparr>"
    by (simp add: io_defs run_eval sample_world_def sample_host_def vol_def HostLoss_def ProcessCrash_def)
  from probeVolume_limits [OF s] s show ?thesis by (auto simp: vol_def)
qed

text \<open>
  A syncer that was not probed refuses to work: it makes no call at all and reports that it is
  unprobed, for files and for directories.
\<close>

theorem unprobed_refuses:
  assumes "\<not> Verified s"
  shows "result (SyncFile s f) w = Inl Unprobed \<and> exec (SyncFile s f) w = w
    \<and> result (SyncDir s dir) w = Inl Unprobed \<and> exec (SyncDir s dir) w = w
    \<and> result (VerifyFile s f) w = Inl Unprobed \<and> exec (VerifyFile s f) w = w"
  using assms by (simp add: SyncFile_def SyncDir_def VerifyFile_def)

theorem unprobed_refuses_witness:
  "result (SyncFile zero_syncer EventsFile) sample_world = Inl Unprobed"
proof -
  have "\<not> Verified zero_syncer" by (simp add: Verified_def zero_syncer_def)
  from unprobed_refuses [OF this] show ?thesis by blast
qed

text \<open>
  C24. A directory sync that reports success verified the handle it opened against the probed device and
  then ran the sync of the syncer's mode on that very handle.
\<close>

theorem SyncDir_verified:
  assumes "result (SyncDir s dir) w = Inr ()"
  shows "h_file_device (w_host w) (DirHandle dir) = sy_device s
    \<and> (\<exists>t. trace (SyncDir s dir) w = [(OpenDir dir, None), (Stat (DirHandle dir), None),
          (if sy_mode s = HostLoss then full_sync (h_platform (w_host w)) (DirHandle dir) else Fsync (DirHandle dir), None)] @ t)"
proof -
  let ?sync = "err_io (syncAt (sy_mode s) (DirHandle dir)) SyncDirFailed (State_Monad.return (Inr ()))"
  let ?body = "try_io (VerifyFile s (DirHandle dir)) (\<lambda>e. e) (\<lambda>_. ?sync)"
  let ?w1 = "exec (perform (OpenDir dir)) w"
  have v: "Verified s" using assms by (auto simp: SyncDir_def split: if_split_asm)
  have app: "appends ?body" "appends ?sync" "appends (deferred ?body (perform (Close (DirHandle dir))))"
    by (intro appendsI io_rules programs_keep keeps_log_perform)+
  obtain r1: "result (deferred ?body (perform (Close (DirHandle dir)))) ?w1 = Inr ()"
    and t1: "trace (SyncDir s dir) w = (OpenDir dir, None) # trace (deferred ?body (perform (Close (DirHandle dir)))) ?w1"
    using assms v unfolding SyncDir_def by simp (erule try_call_InrE, simp add: app)
  then have "result ?body ?w1 = Inr ()" by simp
  then obtain b where r2: "result (VerifyFile s (DirHandle dir)) ?w1 = Inr b"
    "result ?sync (exec (VerifyFile s (DirHandle dir)) ?w1) = Inr ()"
    and t2: "trace ?body ?w1 = trace (VerifyFile s (DirHandle dir)) ?w1 @ trace ?sync (exec (VerifyFile s (DirHandle dir)) ?w1)"
    by (rule try_io_InrE) (simp add: programs_append app)
  have dev: "h_file_device (w_host w) (DirHandle dir) = sy_device s"
    and t3: "trace (VerifyFile s (DirHandle dir)) ?w1 = [(Stat (DirHandle dir), None)]"
    using VerifyFile_success [OF r2(1)] by simp_all
  obtain t where t4: "trace ?sync (exec (VerifyFile s (DirHandle dir)) ?w1)
      = (mode_sync (h_platform (w_host w)) (sy_mode s) (DirHandle dir), None) # t"
    by (rule err_syncAt_InrE [OF r2(2)]) simp
  show ?thesis
    using dev t1 t2 t3 t4 app by (simp add: trace_deferred mode_sync_def)
qed

theorem SyncDir_verified_witness:
  "(Fsync (DirHandle ''/srv/events''), None) \<in> set (trace (SyncDir sample_syncer ''/srv/events'') (sample_world\<lparr>w_env := (\<lambda>_. Done)\<rparr>))"
proof -
  have "result (SyncDir sample_syncer ''/srv/events'') (sample_world\<lparr>w_env := (\<lambda>_. Done)\<rparr>) = Inr ()"
    by (simp add: io_defs run_eval sample_world_def sample_host_def sample_syncer_def Verified_def HostLoss_def)
  from SyncDir_verified [OF this] show ?thesis
    by (auto simp: sample_syncer_def sample_world_def sample_host_def full_sync_def)
qed

text \<open>
  C25. Inspection on Linux follows the kernel's mount table: where the table can be read and names the
  probed device, the verdict is the classification of the type of its first mount, and a type that no
  list knows is an error, never a guess; the magic number is not consulted.
\<close>

theorem inspectLinux_follows_table:
  assumes "list_all entry_ok es" "h_mountinfo (w_host w) = mount_table es"
    and "h_path_device (w_host w) dir = makedev (me_major e) (me_minor e)"
    and "find (\<lambda>f. me_major f = me_major e \<and> me_minor f = me_minor e) es = Some e"
    and "result (perform ReadMountinfo) w = None"
    and "result (perform (StatPath dir)) (exec (perform ReadMountinfo) w) = None"
  shows "result (inspectLinux dir) w =
    (case classifyMountType (me_type e) of
       (known, ok) \<Rightarrow> if ok then Inr known else Inl (UnknownFilesystem (me_type e)))"
proof -
  have "e \<in> set es" using assms(4) by (auto simp: find_Some_iff)
  then have ne: "me_type e \<noteq> []"
    using assms(1) by (auto simp: list_all_iff entry_ok_def entry_fields_def word_ok_def)
  have name: "mountTypeForDevice (mount_table es) (me_major e) (me_minor e) = me_type e"
    using mountTypeForDevice_lookup [OF assms(1)] assms(4) by simp
  have d: "result (deviceOf dir) (exec (perform ReadMountinfo) w) = Inr (makedev (me_major e) (me_minor e))"
    using assms(3,6) by (simp add: deviceOf_def try_call_def result_bind)
  have "result (inspectMountTable dir) w =
    (case classifyMountType (me_type e) of
       (known, ok) \<Rightarrow> if ok then Inr known else Inl (UnknownFilesystem (me_type e)))"
    using assms(2,5) d ne
    by (simp add: inspectMountTable_def result_bind try_io_def linuxDeviceNumbers_makedev name split: prod.split)
  moreover have "fs_name (fst (classifyMountType (me_type e))) = me_type e"
    by (simp add: classifyMountType_def split: option.split)
  ultimately show ?thesis
    using ne by (cases "classifyMountType (me_type e)") (simp add: inspectLinux_def result_bind)
qed

theorem inspectLinux_follows_table_witness:
  "result (inspectLinux ''/tmp'') (sample_world\<lparr>w_env := (\<lambda>_. Done),
     w_host := sample_host\<lparr>h_mountinfo := mount_table sample_entries, h_path_device := (\<lambda>_. makedev 0 300)\<rparr>\<rparr>) = Inr (vol ''tmpfs'')"
proof -
  let ?w = "sample_world\<lparr>w_env := (\<lambda>_. Done),
     w_host := sample_host\<lparr>h_mountinfo := mount_table sample_entries, h_path_device := (\<lambda>_. makedev 0 300)\<rparr>\<rparr>"
  let ?e = "sample_entries ! 1"
  have "result (inspectLinux ''/tmp'') ?w =
    (case classifyMountType (me_type ?e) of
       (known, ok) \<Rightarrow> if ok then Inr known else Inl (UnknownFilesystem (me_type ?e)))"
    by (rule inspectLinux_follows_table [OF sample_entries_ok])
      (simp_all add: sample_entries_def run_eval sample_world_def)
  then show ?thesis
    by (simp add: sample_entries_def classifyMountType_def mountTypes_def network_types_def volatile_types_def
        no_filesystem_def vol_def)
qed

end
