(* ===== verification/Spool_Log.thy ===== *)
theory Spool_Log
  imports Prelude
begin

text \<open>
  The abstract view of an events file: a sequence of newline-terminated records, followed by a fragment
  without a newline. \<open>spool_of\<close> reads it off the bytes, \<open>frame\<close> writes it. The locale \<open>framed_log\<close> is
  the contract between the file and the history of a spool: what a complete or torn append and a
  repair do to the records.
\<close>

section \<open>Records and fragment\<close>

abbreviation LF :: char where "LF \<equiv> CHR 0x0A"

fun spool_of :: "bytes \<Rightarrow> bytes list \<times> bytes" where
  "spool_of [] = ([], [])"
| "spool_of (x # xs) =
    (case spool_of xs of (rs, t) \<Rightarrow>
       if x = LF then ([] # rs, t)
       else (case rs of [] \<Rightarrow> ([], x # t) | r # rs' \<Rightarrow> ((x # r) # rs', t)))"

definition complete_lines :: "bytes \<Rightarrow> bytes list" where
  "complete_lines d = fst (spool_of d)"

definition fragment :: "bytes \<Rightarrow> bytes" where
  "fragment d = snd (spool_of d)"

definition frame :: "bytes list \<Rightarrow> bytes" where
  "frame rs = concat (map (\<lambda>r. r @ [LF]) rs)"

definition terminated :: "bytes \<Rightarrow> bool" where
  "terminated d \<longleftrightarrow> d = [] \<or> last d = LF"

text \<open>The longest prefix that is made of whole lines, and its length.\<close>

definition whole :: "bytes \<Rightarrow> bytes" where
  "whole d = frame (complete_lines d)"

lemma frame_simps [simp]: "frame [] = []" "frame (r # rs) = r @ LF # frame rs"
  "frame (rs @ rs') = frame rs @ frame rs'"
  by (simp_all add: frame_def)

lemma spool_of_split: "spool_of d = (rs, t) \<Longrightarrow> d = frame rs @ t \<and> LF \<notin> set t \<and> (\<forall>r \<in> set rs. LF \<notin> set r)"
  by (induction d arbitrary: rs t) (auto split: prod.splits if_splits list.splits)

lemma spool_of_fragment: "LF \<notin> set t \<Longrightarrow> spool_of t = ([], t)"
  by (induction t) auto

lemma spool_of_line: "LF \<notin> set r \<Longrightarrow> spool_of (r @ LF # d) = (r # fst (spool_of d), snd (spool_of d))"
  by (induction r) (auto split: prod.split)

lemma spool_of_frame: "(\<forall>r \<in> set rs. LF \<notin> set r) \<Longrightarrow> spool_of (frame rs @ d) = (rs @ fst (spool_of d), snd (spool_of d))"
  by (induction rs) (simp_all add: spool_of_line)

lemma whole_fragment: "d = whole d @ fragment d"
  using spool_of_split [of d "fst (spool_of d)" "snd (spool_of d)"]
  by (simp add: whole_def complete_lines_def fragment_def)

lemma no_LF_fragment [simp]: "LF \<notin> set (fragment d)"
  and no_LF_line: "r \<in> set (complete_lines d) \<Longrightarrow> LF \<notin> set r"
  using spool_of_split [of d "fst (spool_of d)" "snd (spool_of d)"] by (auto simp: complete_lines_def fragment_def)

lemma lines_frame [simp]: "(\<forall>r \<in> set rs. LF \<notin> set r) \<Longrightarrow> complete_lines (frame rs @ d) = rs @ complete_lines d"
  by (simp add: complete_lines_def spool_of_frame)

lemma lines_no_LF [simp]: "LF \<notin> set t \<Longrightarrow> complete_lines t = []"
  by (simp add: complete_lines_def spool_of_fragment)

lemma lines_Nil [simp]: "complete_lines [] = []"
  by (simp add: complete_lines_def)

lemma terminated_frame [simp]: "terminated (frame rs)"
  by (cases rs rule: rev_cases) (simp_all add: terminated_def)

lemma terminated_whole [simp]: "terminated (whole d)"
  by (simp add: whole_def)

lemma terminated_fragment: "terminated d \<longleftrightarrow> fragment d = []"
proof
  assume t: "terminated d"
  show "fragment d = []"
  proof (rule ccontr)
    assume ne: "fragment d \<noteq> []"
    then have "last d = last (fragment d)" "d \<noteq> []"
      using whole_fragment [of d] by (metis last_appendR, metis append_is_Nil_conv)
    then show False
      using t ne no_LF_fragment [of d] last_in_set [of "fragment d"] by (auto simp: terminated_def)
  qed
next
  assume "fragment d = []"
  then have "d = whole d" using whole_fragment [of d] by simp
  then show "terminated d" using terminated_whole [of d] by simp
qed

lemma whole_terminated: "terminated d \<Longrightarrow> whole d = d"
  using whole_fragment [of d] by (simp add: terminated_fragment)

lemma lines_whole [simp]: "complete_lines (whole d) = complete_lines d"
  using lines_frame [of "complete_lines d" "[]"] by (simp add: whole_def no_LF_line)

lemma whole_whole [simp]: "whole (whole d) = whole d"
  by (simp add: whole_terminated)

lemma length_whole [simp]: "length (whole d) \<le> length d"
  by (subst (2) whole_fragment) simp

lemma take_whole [simp]: "take (length (whole d)) d = whole d"
  by (subst (2) whole_fragment) simp

lemma lines_terminated_append: "terminated p \<Longrightarrow> complete_lines (p @ d) = complete_lines p @ complete_lines d"
  using lines_frame [of "complete_lines p" d] by (metis no_LF_line whole_def whole_terminated)

lemma whole_terminated_append: "terminated p \<Longrightarrow> whole (p @ d) = p @ whole d"
  by (simp add: whole_def lines_terminated_append) (metis whole_def whole_terminated)

lemma terminated_append: "terminated p \<Longrightarrow> terminated d \<Longrightarrow> terminated (p @ d)"
  by (cases "d = []") (simp_all add: terminated_def)

lemma terminated_snoc [simp]: "terminated (d @ [LF])"
  by (simp add: terminated_def)

text \<open>A write that stops after \<open>k\<close> bytes leaves the record only when its newline got through.\<close>

lemma lines_partial:
  assumes "LF \<notin> set r"
  shows "complete_lines (take k (r @ [LF])) = (if length r < k then [r] else [])"
proof (cases "length r < k")
  case True
  then show ?thesis using lines_frame [of "[r]" "[]"] assms by simp
next
  case False
  then have "LF \<notin> set (take k r)" using assms by (meson in_set_takeD)
  then show ?thesis using False by simp
qed

section \<open>The last newline\<close>

fun last_index :: "char \<Rightarrow> bytes \<Rightarrow> nat option" where
  "last_index c [] = None"
| "last_index c (x # xs) =
    (case last_index c xs of Some i \<Rightarrow> Some (Suc i) | None \<Rightarrow> if x = c then Some 0 else None)"

lemma last_index_None: "last_index c xs = None \<longleftrightarrow> c \<notin> set xs"
  by (induction xs) (auto split: option.split)

lemma last_index_append:
  "last_index c (xs @ ys) =
    (case last_index c ys of Some i \<Rightarrow> Some (length xs + i) | None \<Rightarrow> last_index c xs)"
  by (induction xs) (auto split: option.split)

lemma last_index_frame: "rs \<noteq> [] \<Longrightarrow> last_index LF (frame rs) = Some (length (frame rs) - 1)"
  by (cases rs rule: rev_cases) (simp_all add: last_index_append)

text \<open>One more than the offset of the last newline, or zero: the length of the whole lines.\<close>

lemma last_index_whole:
  "length (whole d) = (case last_index LF d of Some i \<Rightarrow> Suc i | None \<Rightarrow> 0)"
proof -
  have frag: "last_index LF (fragment d) = None"
    by (simp add: last_index_None)
  have "last_index LF d = last_index LF (whole d)"
    by (subst whole_fragment) (simp add: last_index_append frag)
  moreover have "length (whole d) = (case last_index LF (whole d) of Some i \<Rightarrow> Suc i | None \<Rightarrow> 0)"
  proof (cases "complete_lines d = []")
    case True
    then show ?thesis by (simp add: whole_def)
  next
    case False
    moreover from this have "0 < length (frame (complete_lines d))"
      by (cases "complete_lines d") simp_all
    ultimately show ?thesis
      by (simp add: whole_def last_index_frame)
  qed
  ultimately show ?thesis by simp
qed

section \<open>Histories\<close>

text \<open>
  The contract of an append-only log: an append of \<open>k\<close> bytes of an admissible record onto a clean
  log adds the record exactly when all of it got through, and a repair loses no record.
\<close>

locale framed_log =
  fixes records :: "'d \<Rightarrow> 'r list"
    and clean :: "'d \<Rightarrow> bool"
    and put :: "'d \<Rightarrow> 'r \<Rightarrow> nat \<Rightarrow> 'd"
    and complete :: "'r \<Rightarrow> nat \<Rightarrow> bool"
    and repair :: "'d \<Rightarrow> 'd"
    and admissible :: "'r \<Rightarrow> bool"
  assumes records_write: "clean d \<Longrightarrow> admissible r \<Longrightarrow> records (put d r k) = records d @ (if complete r k then [r] else [])"
    and clean_write: "clean d \<Longrightarrow> admissible r \<Longrightarrow> complete r k \<Longrightarrow> clean (put d r k)"
    and records_repair: "records (repair d) = records d"
    and clean_repair: "clean (repair d)"
begin

text \<open>
  After a history that attempted \<open>att\<close> and accepted \<open>acc\<close>, in order, the log holds what it held
  before it and then a selection of the attempted records that includes every accepted one.
\<close>

definition history :: "'r list \<Rightarrow> 'r list \<Rightarrow> 'r list \<Rightarrow> 'd \<Rightarrow> bool" where
  "history base acc att d \<longleftrightarrow> (\<exists>L. records d = base @ L \<and> subseq acc L \<and> subseq L att)"

lemma history_start: "history (records d) [] [] d"
  by (simp add: history_def)

lemma history_accept:
  assumes "history base acc att d" "clean d" "admissible r" "complete r k"
  shows "history base (acc @ [r]) (att @ [r]) (put d r k)"
  using assms unfolding history_def by (force simp: records_write)

lemma history_torn:
  assumes "history base acc att d" "clean d" "admissible r"
  shows "history base acc (att @ [r]) (put d r k)"
proof -
  obtain L where L: "records d = base @ L" "subseq acc L" "subseq L att"
    using assms(1) by (auto simp: history_def)
  show ?thesis
  proof (cases "complete r k")
    case True
    then have "records (put d r k) = base @ (L @ [r])"
      using assms L by (simp add: records_write)
    moreover have "subseq acc (L @ [r])" using L(2) by (rule subseq_rev_drop_many)
    moreover have "subseq (L @ [r]) (att @ [r])" using L(3) by simp
    ultimately show ?thesis unfolding history_def by blast
  next
    case False
    then have "records (put d r k) = base @ L"
      using assms L by (simp add: records_write)
    moreover have "subseq L (att @ [r])" using L(3) by (rule subseq_rev_drop_many)
    ultimately show ?thesis using L(2) unfolding history_def by blast
  qed
qed

lemma history_rejected: "history base acc att d \<Longrightarrow> history base acc (att @ [r]) d"
  unfolding history_def using subseq_rev_drop_many by blast

lemma history_repair: "history base acc att (repair d) = history base acc att d"
  by (simp add: history_def records_repair)

lemma history_accepted: "history base acc att d \<Longrightarrow> subseq acc (records d)"
  unfolding history_def using list_emb_append2 by fastforce

end

text \<open>A record without a newline is what the framing admits.\<close>

definition write_line :: "bytes \<Rightarrow> bytes \<Rightarrow> nat \<Rightarrow> bytes" where
  "write_line d r k = d @ take k (r @ [LF])"

interpretation spool_log: framed_log complete_lines terminated write_line "\<lambda>r k. length r < k" whole "\<lambda>r. LF \<notin> set r"
proof
  fix d r :: bytes and k
  assume d: "terminated d" and r: "LF \<notin> set r"
  show "complete_lines (write_line d r k) = complete_lines d @ (if length r < k then [r] else [])"
    unfolding write_line_def by (simp only: lines_terminated_append [OF d] lines_partial [OF r])
  show "terminated (write_line d r k)" if "length r < k"
    using that by (simp add: write_line_def terminated_def)
qed simp_all

end
