(* ===== verification/Spool_Writer.thy ===== *)
theory Spool_Writer
  imports Durability Event Spool_Log
begin

text \<open>
  \<open>internal/spool/writer.go\<close>: opening the writer of one source (guard, events file, tail repair),
  appending a record durably, and closing. A \<open>Writer\<close> holds the descriptor of its lock; a failed
  write or sync is kept in \<open>wr_broken\<close> and ends the stream. Descriptors are numbered by the length
  of the call log, which makes every number fresh.
\<close>

section \<open>Data\<close>

datatype spool_error =
    BadSource slug_error
  | SyncerUnprobed
  | RootUnresolved errno
  | SyncerRoot
  | LockDirFailed errno
  | LockOpenFailed errno
  | StateStatFailed errno
  | NotRegularFile
  | ForeignState dur_error
  | Locked
  | LockFailed errno
  | EventsDirFailed errno
  | EventsOpenFailed errno
  | SyncFailed dur_error
  | TailStatFailed errno
  | TailReadFailed errno
  | TailScanFailed errno
  | TailTruncateFailed errno
  | EmptyRecord
  | EmbeddedLineBreak bytes
  | BrokenWrite errno
  | BrokenSync dur_error

record writer =
  wr_source :: bytes
  wr_lock :: nat
  wr_syncer :: syncer
  wr_broken :: "spool_error option"

definition lineBreaks :: "bytes list" where
  "lineBreaks = [[LF], [CHR 0x0D], encode_rune 133, encode_rune 8232, encode_rune 8233]"

definition tailScanChunk :: nat where "tailScanChunk = 65536"

section \<open>Opening\<close>

definition checkSyncerRoot :: "bytes \<Rightarrow> syncer \<Rightarrow> (spool_error + unit) io" where
  "checkSyncerRoot root s =
    (if \<not> Verified s then State_Monad.return (Inl SyncerUnprobed)
     else try_io (file_abs root) RootUnresolved
       (\<lambda>absolute. State_Monad.return (if absolute \<noteq> sy_dir s then Inl SyncerRoot else Inr ())))"

definition verifyState :: "handle \<Rightarrow> syncer \<Rightarrow> (spool_error + unit) io" where
  "verifyState f s =
    try_call (Stat f) StateStatFailed
      (State_Monad.bind State_Monad.get
        (\<lambda>w. if \<not> h_regular (w_host w) f then State_Monad.return (Inl NotRegularFile)
             else try_io (VerifyFile s f) ForeignState (\<lambda>_. State_Monad.return (Inr ()))))"

text \<open>After a failure: release a handle, ignoring the outcome, and return the error.\<close>

definition close_fail :: "handle \<Rightarrow> 'e \<Rightarrow> ('e + 'a) io" where
  "close_fail f e = State_Monad.bind (perform (Close f)) (\<lambda>_. State_Monad.return (Inl e))"

definition lockFile :: "nat \<Rightarrow> syncer \<Rightarrow> (spool_error + nat) io" where
  "lockFile fd s =
    State_Monad.bind (verifyState (LockFile fd) s)
      (\<lambda>r. case r of
         Inl e \<Rightarrow> close_fail (LockFile fd) e
       | Inr _ \<Rightarrow>
           State_Monad.bind (perform (Flock fd))
             (\<lambda>r. case r of
                None \<Rightarrow> State_Monad.return (Inr fd)
              | Some e \<Rightarrow> close_fail (LockFile fd) (if e = EWOULDBLOCK then Locked else LockFailed e)))"

definition acquireWriterLock :: "bytes \<Rightarrow> bytes \<Rightarrow> syncer \<Rightarrow> (spool_error + nat) io" where
  "acquireWriterLock root source s =
    try_call (MkdirAll (writerLockDir root)) LockDirFailed
      (State_Monad.bind State_Monad.get
        (\<lambda>w. try_call (OpenLock (writerLockPath root source)) LockOpenFailed (lockFile (length (w_log w)) s)))"

definition verifyEvents :: "bytes \<Rightarrow> syncer \<Rightarrow> (spool_error + unit) io" where
  "verifyEvents root s =
    State_Monad.bind (verifyState EventsFile s)
      (\<lambda>r. case r of
         Inl e \<Rightarrow> close_fail EventsFile e
       | Inr _ \<Rightarrow>
           State_Monad.bind (SyncDir s (eventsDir root))
             (\<lambda>r. case r of
                Inl e \<Rightarrow> close_fail EventsFile (SyncFailed e)
              | Inr _ \<Rightarrow> State_Monad.return (Inr ())))"

definition openEventsFile :: "bytes \<Rightarrow> bytes \<Rightarrow> syncer \<Rightarrow> (spool_error + unit) io" where
  "openEventsFile root source s =
    try_call (MkdirAll (eventsDir root)) EventsDirFailed
      (try_io (SyncDir s root) SyncFailed
        (\<lambda>_. try_call (OpenEvents (eventsPath root source)) EventsOpenFailed (verifyEvents root s)))"

section \<open>The tail\<close>

text \<open>The backward scan from the offset \<open>stop\<close>; the result is \<open>-1\<close> when there is no newline.\<close>

function lastNewlineOffset :: "nat \<Rightarrow> (errno + int) io" where
  "lastNewlineOffset stop =
    (if stop = 0 then State_Monad.return (Inr (- 1))
     else try_call (ReadAt (stop - tailScanChunk) (stop - (stop - tailScanChunk))) (\<lambda>e. e)
       (State_Monad.bind State_Monad.get
         (\<lambda>w. case last_index (LF) (take (stop - (stop - tailScanChunk)) (drop (stop - tailScanChunk) (w_data w))) of
                Some i \<Rightarrow> State_Monad.return (Inr (int (stop - tailScanChunk + i)))
              | None \<Rightarrow> lastNewlineOffset (stop - tailScanChunk))))"
  by pat_completeness auto
termination lastNewlineOffset
  by (relation "measure id") (simp_all add: tailScanChunk_def)

declare lastNewlineOffset.simps [simp del]

definition truncateTail :: "syncer \<Rightarrow> nat \<Rightarrow> (spool_error + unit) io" where
  "truncateTail s len =
    try_io (lastNewlineOffset len) TailScanFailed
      (\<lambda>newline. try_call (Truncate (nat (newline + 1))) TailTruncateFailed
        (try_io (SyncFile s EventsFile) SyncFailed (\<lambda>_. State_Monad.return (Inr ()))))"

definition repairTail :: "writer \<Rightarrow> (spool_error + unit) io" where
  "repairTail wr =
    try_call (Stat EventsFile) TailStatFailed
      (State_Monad.bind State_Monad.get
        (\<lambda>w. let len = length (w_data w) in
          if len = 0 then State_Monad.return (Inr ())
          else try_call (ReadAt (len - 1) 1) TailReadFailed
            (State_Monad.bind State_Monad.get
              (\<lambda>w. if w_data w ! (len - 1) = LF then State_Monad.return (Inr ())
                   else truncateTail (wr_syncer wr) len))))"

text \<open>\<open>errors.Join\<close> of the two closes: both run, and every error is reported.\<close>

definition CloseWriter :: "writer \<Rightarrow> errno list io" where
  "CloseWriter wr =
    State_Monad.bind (perform (Close EventsFile))
      (\<lambda>a. State_Monad.bind (perform (Close (LockFile (wr_lock wr))))
        (\<lambda>b. State_Monad.return (List.map_filter (\<lambda>x. x) [a, b])))"

definition repairOrClose :: "writer \<Rightarrow> (spool_error + writer) io" where
  "repairOrClose wr =
    State_Monad.bind (repairTail wr)
      (\<lambda>r. case r of
         Inl e \<Rightarrow> State_Monad.bind (CloseWriter wr) (\<lambda>_. State_Monad.return (Inl e))
       | Inr _ \<Rightarrow> State_Monad.return (Inr wr))"

definition openLocked :: "bytes \<Rightarrow> bytes \<Rightarrow> syncer \<Rightarrow> nat \<Rightarrow> (spool_error + writer) io" where
  "openLocked root source s fd =
    State_Monad.bind (openEventsFile root source s)
      (\<lambda>r. case r of
         Inl e \<Rightarrow> close_fail (LockFile fd) e
       | Inr _ \<Rightarrow>
           repairOrClose \<lparr>wr_source = source, wr_lock = fd, wr_syncer = s, wr_broken = None\<rparr>)"

definition Open :: "bytes \<Rightarrow> bytes \<Rightarrow> syncer \<Rightarrow> (spool_error + writer) io" where
  "Open root source s =
    (case validate_slug ''source'' source of
       Some e \<Rightarrow> State_Monad.return (Inl (BadSource e))
     | None \<Rightarrow>
         try_io (checkSyncerRoot root s) (\<lambda>e. e)
           (\<lambda>_. try_io (acquireWriterLock root source s) (\<lambda>e. e) (openLocked root source s)))"

section \<open>Appending\<close>

definition Append :: "writer \<Rightarrow> bytes \<Rightarrow> (spool_error option \<times> writer) io" where
  "Append wr record =
    (case wr_broken wr of
       Some e \<Rightarrow> State_Monad.return (Some e, wr)
     | None \<Rightarrow>
         if record = [] then State_Monad.return (Some EmptyRecord, wr)
         else (case find (\<lambda>b. sublist b record) lineBreaks of
                 Some b \<Rightarrow> State_Monad.return (Some (EmbeddedLineBreak b), wr)
               | None \<Rightarrow>
                   State_Monad.bind (perform (Write EventsFile (record @ [LF])))
                     (\<lambda>r. case r of
                        Some e \<Rightarrow> State_Monad.return (Some (BrokenWrite e), wr\<lparr>wr_broken := Some (BrokenWrite e)\<rparr>)
                      | None \<Rightarrow>
                          State_Monad.bind (SyncFile (wr_syncer wr) EventsFile)
                            (\<lambda>r. case r of
                               Inl e \<Rightarrow> State_Monad.return (Some (BrokenSync e), wr\<lparr>wr_broken := Some (BrokenSync e)\<rparr>)
                             | Inr _ \<Rightarrow> State_Monad.return (None, wr)))))"


section \<open>What the calls leave alone\<close>

text \<open>
  Every call but a write, a truncation and the two that move the lock is harmless: it changes
  neither the contents of the events file nor the lock, and can only make more of it durable.
\<close>

definition harmless :: "syscall \<Rightarrow> bool" where
  "harmless c =
    (case c of
       Write f b \<Rightarrow> f \<noteq> EventsFile
     | Truncate n \<Rightarrow> False
     | Flock fd \<Rightarrow> False
     | Close f \<Rightarrow> (case f of LockFile fd \<Rightarrow> False | _ \<Rightarrow> True)
     | _ \<Rightarrow> True)"

lemma harmless_simps [simp]:
  "harmless (MkdirAll p)" "harmless (OpenDir p)" "harmless (OpenLock p)" "harmless (OpenEvents p)"
  "harmless (Fsync f)" "harmless (FullFsync f)" "harmless (Stat f)" "harmless (ReadAt a n)" "harmless Getwd"
  "harmless (Close EventsFile)" "harmless (Close (DirHandle p))"
  "\<not> harmless (Write EventsFile b)" "\<not> harmless (Truncate n)" "\<not> harmless (Flock fd)"
  by (simp_all add: harmless_def)

lemma harmless_full_sync [simp]: "harmless (full_sync p f)"
  by (simp add: full_sync_def split: platform.split)

definition entries_durable :: "world \<Rightarrow> bool" where
  "entries_durable w \<longleftrightarrow> w_dir_entry_durable w \<and> w_file_entry_durable w"

text \<open>What no call takes back: the host and the environment, the log so far and the durability of directory entries.\<close>

definition steady :: "world \<Rightarrow> world \<Rightarrow> bool" where
  "steady w0 w \<longleftrightarrow>
    w_host w = w_host w0 \<and> w_env w = w_env w0 \<and> prefix (w_log w0) (w_log w)
    \<and> (w_dir_entry_durable w0 \<longrightarrow> w_dir_entry_durable w) \<and> (w_file_entry_durable w0 \<longrightarrow> w_file_entry_durable w)
    \<and> (w_dir_exists w0 \<longrightarrow> w_dir_exists w) \<and> (w_file_exists w0 \<longrightarrow> w_file_exists w)"

lemma steady_refl [simp]: "steady w w"
  by (simp add: steady_def)

lemma steady_trans: "steady w0 w1 \<Longrightarrow> steady w1 w2 \<Longrightarrow> steady w0 w2"
  by (auto simp: steady_def intro: prefix_order.trans)

lemma steady_host: "steady w0 w \<Longrightarrow> w_host w = w_host w0"
  and steady_entries: "steady w0 w \<Longrightarrow> entries_durable w0 \<Longrightarrow> entries_durable w"
  by (simp_all add: steady_def entries_durable_def)

lemma steady_logged [simp]: "steady w (logged c r w)" "steady w (w\<lparr>w_dead := b\<rparr>)"
  by (simp_all add: steady_def logged_def)

lemma steady_effect [simp]: "steady w (effect c w)"
  by (cases c) (auto simp: effect_def sync_effect_def close_effect_def steady_def split: handle.splits)

lemma steady_partial_effect [simp]: "steady w (partial_effect k c w)"
  using steady_effect [of w c]
  by (cases c) (auto simp: partial_effect_def close_effect_def steady_def effect_def split: handle.splits)

definition quiet :: "world \<Rightarrow> world \<Rightarrow> bool" where
  "quiet w0 w \<longleftrightarrow>
    steady w0 w \<and> w_data w = w_data w0 \<and> w_lock w = w_lock w0
    \<and> (w_durable w = w_durable w0 \<or> w_durable w = length (w_data w0))"

lemma quiet_refl [simp]: "quiet w w"
  by (simp add: quiet_def)

lemma quiet_trans: "quiet w0 w1 \<Longrightarrow> quiet w1 w2 \<Longrightarrow> quiet w0 w2"
  by (auto simp: quiet_def intro: steady_trans)

lemma quiet_data: "quiet w0 w \<Longrightarrow> w_data w = w_data w0"
  and quiet_lock: "quiet w0 w \<Longrightarrow> w_lock w = w_lock w0"
  and quiet_steady: "quiet w0 w \<Longrightarrow> steady w0 w"
  by (simp_all add: quiet_def)

lemma effect_quiet: "harmless c \<Longrightarrow> quiet w (effect c w)"
  unfolding quiet_def
  by (intro conjI steady_effect; cases c)
    (auto simp: harmless_def effect_def sync_effect_def close_effect_def split: handle.splits)

lemma partial_effect_quiet: "harmless c \<Longrightarrow> quiet w (partial_effect k c w)"
  unfolding quiet_def
  by (intro conjI steady_partial_effect; cases c)
    (auto simp: harmless_def effect_def partial_effect_def close_effect_def split: handle.splits)

lemma quiet_logged [simp]: "quiet w0 w \<Longrightarrow> quiet w0 (logged c r w)" "quiet w0 w \<Longrightarrow> quiet w0 (w\<lparr>w_dead := b\<rparr>)"
  using steady_trans [OF quiet_steady] steady_logged by (auto simp: quiet_def) (simp_all add: logged_def)

text \<open>To keep a property, a call must keep it in its effect, its partial effect, the log and death.\<close>

lemma keeps_call:
  assumes "\<And>w r. P w \<Longrightarrow> P (logged c r w)" "\<And>w. P w \<Longrightarrow> P (w\<lparr>w_dead := True\<rparr>)"
    and "\<And>w. P w \<Longrightarrow> refused c w = None \<Longrightarrow> P (effect c w)" "\<And>w k. P w \<Longrightarrow> P (partial_effect k c w)"
  shows "keeps P (perform c)"
proof (rule hoareI)
  fix w assume "P w"
  then show "P (exec (perform c) w)"
    by (cases rule: run_call_cases [of w c]) (simp_all add: exec_perform assms)
qed

lemma harmless_call: "harmless c \<Longrightarrow> keeps (quiet w0) (perform c)"
  by (rule keeps_call) (auto intro: quiet_trans effect_quiet partial_effect_quiet)

lemma harmless_programs:
  assumes "\<And>c. harmless c \<Longrightarrow> keeps P (perform c)"
  shows "keeps P (file_abs p)" "keeps P (VerifyFile s f)" "keeps P (SyncFile s f)" "keeps P (SyncDir s dir)"
    and "keeps P (checkSyncerRoot root s)" "keeps P (verifyState f s)"
    and "keeps P (verifyEvents root s)" "keeps P (openEventsFile root source s)"
  unfolding io_defs checkSyncerRoot_def verifyState_def verifyEvents_def openEventsFile_def close_fail_def
  by (intro io_rules allI impI assms harmless_simps harmless_full_sync)+

lemma harmless_lastNewlineOffset:
  assumes "\<And>c. harmless c \<Longrightarrow> keeps P (perform c)"
  shows "keeps P (lastNewlineOffset n)"
proof (induction n rule: less_induct)
  case (less n)
  show ?case
  proof (cases "n = 0")
    case True
    then show ?thesis by (simp add: lastNewlineOffset.simps keeps_return)
  next
    case False
    then have "keeps P (lastNewlineOffset (n - tailScanChunk))"
      by (intro less) (simp add: tailScanChunk_def)
    then show ?thesis
      by (subst lastNewlineOffset.simps) (intro io_rules assms harmless_simps)
  qed
qed

lemma quiet_perform [simp]: "harmless c \<Longrightarrow> quiet w (exec (perform c) w)"
  using harmless_call [of c w] by (simp add: hoare_def)

lemma quiet_step: "quiet w0 w \<Longrightarrow> harmless c \<Longrightarrow> quiet w0 (exec (perform c) w)"
  by (rule quiet_trans [OF _ quiet_perform])

lemmas quiet_programs = harmless_programs [OF harmless_call] harmless_lastNewlineOffset [OF harmless_call]

lemma quiet_exec: "keeps (quiet w) m \<Longrightarrow> quiet w (exec m w)"
  by (simp add: hoare_def)

section \<open>Repair\<close>

text \<open>The chunked scan finds the last newline before \<open>n\<close>, whatever the chunk boundaries.\<close>

lemma lastNewlineOffset_value:
  assumes "result (lastNewlineOffset n) w = Inr v" "n \<le> length (w_data w)"
  shows "v = (case last_index LF (take n (w_data w)) of Some i \<Rightarrow> int i | None \<Rightarrow> - 1)"
  using assms
proof (induction n arbitrary: w rule: less_induct)
  case (less n)
  let ?m = "n - tailScanChunk"
  let ?chunk = "take (n - ?m) (drop ?m (w_data w))"
  let ?w1 = "exec (perform (ReadAt ?m (n - ?m))) w"
  show ?case
  proof (cases "n = 0")
    case True
    then show ?thesis using less.prems by (simp add: lastNewlineOffset.simps)
  next
    case False
    have d: "w_data ?w1 = w_data w"
      by (rule quiet_data) simp
    have r: "(case last_index LF ?chunk of Some i \<Rightarrow> Inr (int (?m + i)) | None \<Rightarrow> result (lastNewlineOffset ?m) ?w1) = Inr v"
      using less.prems(1) False
      by (subst (asm) lastNewlineOffset.simps)
        (simp, elim try_call_InrE, simp add: result_bind d split: option.splits)
    have "take n (w_data w) = take ?m (w_data w) @ ?chunk"
      by (metis add_diff_inverse_nat diff_le_self not_less take_add)
    then have i: "last_index LF (take n (w_data w)) =
        (case last_index LF ?chunk of Some i \<Rightarrow> Some (?m + i) | None \<Rightarrow> last_index LF (take ?m (w_data w)))"
      using less.prems(2) by (simp add: last_index_append split: option.split)
    show ?thesis
    proof (cases "last_index LF ?chunk")
      case None
      then have "result (lastNewlineOffset ?m) ?w1 = Inr v" using r by simp
      then show ?thesis
        using less.IH [of ?m ?w1] False less.prems(2) None i unfolding d by (simp add: tailScanChunk_def)
    next
      case (Some j)
      then show ?thesis using r i by simp
    qed
  qed
qed

lemma appends_lastNewlineOffset [simp]: "appends (lastNewlineOffset n)"
  by (intro appendsI harmless_lastNewlineOffset keeps_log_perform)

text \<open>One chunk of the scan: what it returns and which calls it makes.\<close>

lemma lastNewlineOffset_chunk:
  fixes n w
  defines "m \<equiv> n - tailScanChunk"
  defines "w' \<equiv> exec (perform (ReadAt m (n - m))) w"
  assumes "n \<noteq> 0"
  shows "result (lastNewlineOffset n) w =
      (case result (perform (ReadAt m (n - m))) w of
         Some e \<Rightarrow> Inl e
       | None \<Rightarrow> (case last_index LF (take (n - m) (drop m (w_data w'))) of
           Some i \<Rightarrow> Inr (int (m + i))
         | None \<Rightarrow> result (lastNewlineOffset m) w'))"
    and "trace (lastNewlineOffset n) w = trace (perform (ReadAt m (n - m))) w @
      (case result (perform (ReadAt m (n - m))) w of
         Some e \<Rightarrow> []
       | None \<Rightarrow> (case last_index LF (take (n - m) (drop m (w_data w'))) of
           Some i \<Rightarrow> []
         | None \<Rightarrow> trace (lastNewlineOffset m) w'))"
proof -
  let ?k = "State_Monad.bind State_Monad.get (\<lambda>w. case last_index LF (take (n - m) (drop m (w_data w))) of
      Some i \<Rightarrow> State_Monad.return (Inr (int (m + i))) | None \<Rightarrow> lastNewlineOffset m)"
  have scan: "lastNewlineOffset n = try_call (ReadAt m (n - m)) (\<lambda>e. e) ?k"
    using assms(3) unfolding m_def by (subst lastNewlineOffset.simps) simp
  have branch: "appends (case x of Some i \<Rightarrow> State_Monad.return (Inr (f i)) | None \<Rightarrow> lastNewlineOffset m)" for x f
    by (simp split: option.split)
  have k: "appends ?k"
    by (intro appendsI io_rules keeps_log_perform harmless_lastNewlineOffset)
  then have try_k: "appends (case r of Some e \<Rightarrow> State_Monad.return (Inl e) | None \<Rightarrow> ?k)" for r
    by (simp split: option.split)
  show "result (lastNewlineOffset n) w =
      (case result (perform (ReadAt m (n - m))) w of
         Some e \<Rightarrow> Inl e
       | None \<Rightarrow> (case last_index LF (take (n - m) (drop m (w_data w'))) of
           Some i \<Rightarrow> Inr (int (m + i))
         | None \<Rightarrow> result (lastNewlineOffset m) w'))"
    unfolding scan try_call_def by (simp add: result_bind w'_def split: option.split)
  show "trace (lastNewlineOffset n) w = trace (perform (ReadAt m (n - m))) w @
      (case result (perform (ReadAt m (n - m))) w of
         Some e \<Rightarrow> []
       | None \<Rightarrow> (case last_index LF (take (n - m) (drop m (w_data w'))) of
           Some i \<Rightarrow> []
         | None \<Rightarrow> trace (lastNewlineOffset m) w'))"
    unfolding scan try_call_def trace_bind [OF appends_basic(1) try_k]
    by (cases "result (perform (ReadAt m (n - m))) w")
      (simp_all add: trace_bind [OF appends_basic(3) branch] w'_def split: option.split)
qed

text \<open>
  The calls of the scan: reads inside the file, all of them completed when the scan returns an offset;
  when it fails, the last one failed, with that error. A process that is already dead makes none.
\<close>

lemma lastNewlineOffset_trace:
  "list_all (\<lambda>(c, r). \<exists>a k. c = ReadAt a k \<and> a + k \<le> n) (trace (lastNewlineOffset n) w)
    \<and> (case result (lastNewlineOffset n) w of
        Inr v \<Rightarrow> list_all (\<lambda>(c, r). r = None) (trace (lastNewlineOffset n) w)
      | Inl e \<Rightarrow> w_dead w \<and> e = EIO \<or> (\<exists>t a k. trace (lastNewlineOffset n) w = t @ [(ReadAt a k, Some e)]))"
proof (induction n arbitrary: w rule: less_induct)
  case (less n)
  let ?m = "n - tailScanChunk"
  let ?read = "ReadAt ?m (n - ?m)"
  let ?w1 = "exec (perform ?read) w"
  show ?case
  proof (cases "n = 0")
    case True
    then show ?thesis by (simp add: lastNewlineOffset.simps)
  next
    case n0: False
    note chunk = lastNewlineOffset_chunk [OF n0, of w]
    show ?thesis
    proof (cases "result (perform ?read) w")
      case (Some e)
      then show ?thesis
        unfolding chunk by (auto simp: trace_perform result_perform run_call_def)
    next
      case None
      have t: "trace (perform ?read) w = [(?read, None)]"
        by (rule trace_call_success [OF None])
      have "\<not> w_dead ?w1"
        using call_success(1,3) [OF None] by (simp add: logged_def effect_def)
      moreover have "?m < n" "\<And>a k. a + k \<le> ?m \<Longrightarrow> a + k \<le> n"
        using n0 by (auto simp: tailScanChunk_def)
      ultimately show ?thesis
        unfolding chunk t None using less.IH [of ?m ?w1]
        by (fastforce simp: list_all_iff split: sum.split option.split)
    qed
  qed
qed

lemma lastNewlineOffset_whole:
  assumes "result (lastNewlineOffset (length (w_data w))) w = Inr v"
  shows "nat (v + 1) = length (whole (w_data w))"
  using lastNewlineOffset_value [OF assms] last_index_whole [of "w_data w"] by (auto split: option.splits)

text \<open>
  What a repair may do to the file, in every state it can be interrupted in: the contents are the
  old ones or their whole lines, and no durable whole line becomes less durable.
\<close>

definition repairing :: "world \<Rightarrow> world \<Rightarrow> bool" where
  "repairing w0 w \<longleftrightarrow>
    steady w0 w \<and> (w_data w = w_data w0 \<or> w_data w = whole (w_data w0))
    \<and> min (w_durable w0) (length (whole (w_data w0))) \<le> w_durable w
    \<and> (w_durable w0 \<le> length (w_data w0) \<longrightarrow> w_durable w \<le> length (w_data w))"

lemma repairing_refl [simp]: "repairing w w"
  by (simp add: repairing_def)

lemma whole_le: "w_data w = w_data w0 \<or> w_data w = whole (w_data w0) \<Longrightarrow>
    min d (length (whole (w_data w0))) \<le> length (w_data w)"
  by (elim disjE) (simp_all add: min.coboundedI2)

lemma repairing_quiet:
  assumes "repairing w0 w1" "quiet w1 w"
  shows "repairing w0 w"
proof -
  have "min (w_durable w0) (length (whole (w_data w0))) \<le> length (w_data w1)"
    using assms(1) by (intro whole_le) (simp add: repairing_def)
  then show ?thesis
    using assms steady_trans [of w0 w1 w] by (auto simp: repairing_def quiet_def)
qed

lemma quiet_repairing: "quiet w0 w \<Longrightarrow> repairing w0 w"
  by (rule repairing_quiet [OF repairing_refl])

lemma quiet_repairing_trans:
  assumes "quiet w0 w1" "repairing w1 w"
  shows "repairing w0 w"
proof -
  have "w_durable w1 = w_durable w0 \<or> w_durable w1 = length (w_data w0)"
    using assms(1) by (simp add: quiet_def)
  then have "min (w_durable w0) (length (whole (w_data w0))) \<le> w_durable w"
    using assms length_whole [of "w_data w0"] by (auto simp: quiet_def repairing_def)
  then show ?thesis
    using assms steady_trans [of w0 w1 w] by (auto simp: repairing_def quiet_def)
qed

lemma repairing_harmless: "harmless c \<Longrightarrow> keeps (repairing w0) (perform c)"
  by (rule keeps_call) (auto intro: repairing_quiet effect_quiet partial_effect_quiet)

lemma truncate_whole: "w_data w = d \<or> w_data w = whole d \<Longrightarrow> take (length (whole d)) (w_data w) = whole d"
  by auto

lemma repairing_truncate: "n = length (whole (w_data w0)) \<Longrightarrow> keeps (repairing w0) (perform (Truncate n))"
proof (rule keeps_call)
  fix w k assume n: "n = length (whole (w_data w0))" and w: "repairing w0 w"
  show e: "repairing w0 (effect (Truncate n) w)"
    using w truncate_whole [of w "w_data w0"] steady_trans [OF _ steady_effect, of w0 w "Truncate n"]
    by (auto simp: repairing_def effect_def n)
  show "repairing w0 (partial_effect k (Truncate n) w)"
    using w e by (simp add: partial_effect_def)
qed (auto intro: repairing_quiet)

lemma repairing_same:
  "repairing w0 w \<Longrightarrow> steady w w' \<Longrightarrow> w_data w' = w_data w \<Longrightarrow> w_durable w' = w_durable w \<Longrightarrow> repairing w0 w'"
  by (auto simp: repairing_def intro: steady_trans)

lemma repairing_lock_calls: "keeps (repairing w0) (perform (Flock fd))" "keeps (repairing w0) (perform (Close f))"
  by (rule keeps_call; erule repairing_same;
      simp add: effect_def close_effect_def partial_effect_def logged_def steady_def split: handle.split)+

lemma truncateTail_repairing: "repairing w (exec (truncateTail s (length (w_data w))) w)"
proof -
  let ?n = "lastNewlineOffset (length (w_data w))"
  have q: "quiet w (exec ?n w)" by (intro quiet_exec quiet_programs)
  show ?thesis
  proof (cases "result ?n w")
    case (Inl e)
    then show ?thesis using q by (simp add: truncateTail_def try_io_def exec_bind quiet_repairing)
  next
    case (Inr v)
    let ?rest = "try_call (Truncate (nat (v + 1))) TailTruncateFailed
        (try_io (SyncFile s EventsFile) SyncFailed (\<lambda>_. State_Monad.return (Inr ())))"
    have "keeps (repairing w) ?rest"
      by (intro io_rules harmless_programs repairing_harmless repairing_truncate lastNewlineOffset_whole Inr)
    then have "repairing w (exec ?rest (exec ?n w))"
      using quiet_repairing [OF q] by (simp add: hoare_def)
    then show ?thesis
      using Inr by (simp add: truncateTail_def try_io_def exec_bind)
  qed
qed

lemma repairTail_repairing: "repairing w (exec (repairTail wr) w)"
proof -
  let ?stat = "exec (perform (Stat EventsFile)) w"
  let ?len = "length (w_data w)"
  let ?read = "exec (perform (ReadAt (?len - Suc 0) (Suc 0))) ?stat"
  have q: "quiet w ?stat" "quiet w ?read"
    by (intro quiet_step quiet_refl harmless_simps)+
  then have d: "w_data ?stat = w_data w" "w_data ?read = w_data w"
    by (simp_all add: quiet_data)
  note r = q [THEN quiet_repairing]
  have t: "repairing w (exec (truncateTail (wr_syncer wr) ?len) ?read)"
    using truncateTail_repairing [of ?read] quiet_repairing_trans [OF q(2)] by (simp add: d)
  show ?thesis
    using r t by (auto simp: repairTail_def try_call_def exec_bind result_bind d Let_def split: option.split)
qed

text \<open>A successful repair leaves exactly the whole lines; in the stronger mode what it cut is durable.\<close>

lemma SyncFile_durable:
  assumes "result (SyncFile s EventsFile) w = Inr u" "sy_mode s = HostLoss"
  shows "w_durable (exec (SyncFile s EventsFile) w) = length (w_data w)"
proof -
  have v: "Verified s" using assms(1) by (auto simp: SyncFile_def split: if_split_asm)
  let ?c = "full_sync (h_platform (w_host w)) EventsFile"
  have "exec (SyncFile s EventsFile) w = exec (perform ?c) w \<and> result (perform ?c) w = None"
    using assms v unfolding SyncFile_def
    by simp (erule err_syncAt_InrE, simp add: mode_sync_def)
  then show ?thesis
    using call_success(3) [of ?c w]
    by (simp add: full_sync_def effect_def sync_effect_def reaches_storage_def logged_def split: platform.splits)
qed

lemma truncateTail_success:
  assumes "result (truncateTail s (length (w_data w))) w = Inr u"
  defines "w' \<equiv> exec (truncateTail s (length (w_data w))) w"
  shows "w_data w' = whole (w_data w)" "sy_mode s = HostLoss \<Longrightarrow> w_durable w' = length (w_data w')"
proof -
  let ?scan = "lastNewlineOffset (length (w_data w))"
  let ?w1 = "exec ?scan w"
  let ?sync = "try_io (SyncFile s EventsFile) SyncFailed (\<lambda>_. State_Monad.return (Inr ()))"
  obtain v where v: "result ?scan w = Inr v"
    and r: "result (try_call (Truncate (nat (v + 1))) TailTruncateFailed ?sync) ?w1 = Inr u"
    and w': "w' = exec (try_call (Truncate (nat (v + 1))) TailTruncateFailed ?sync) ?w1"
    using assms(1) unfolding w'_def truncateTail_def by (rule try_io_InrE) simp
  let ?w2 = "exec (perform (Truncate (nat (v + 1)))) ?w1"
  have d1: "w_data ?w1 = w_data w"
    by (intro quiet_data quiet_exec quiet_programs)
  obtain t: "result (perform (Truncate (nat (v + 1)))) ?w1 = None"
    and r2: "result ?sync ?w2 = Inr u" and w'2: "w' = exec ?sync ?w2"
    using r unfolding w' by (rule try_call_InrE)
  obtain b where b: "result (SyncFile s EventsFile) ?w2 = Inr b" and w'3: "w' = exec (SyncFile s EventsFile) ?w2"
    using r2 unfolding w'2 by (rule try_io_InrE) simp
  have d2: "w_data ?w2 = whole (w_data w)"
    using call_success(3) [OF t] lastNewlineOffset_whole [OF v] by (simp add: effect_def logged_def d1)
  have q: "quiet ?w2 w'"
    unfolding w'3 by (intro quiet_exec quiet_programs)
  show "w_data w' = whole (w_data w)" using quiet_data [OF q] d2 by simp
  show "w_durable w' = length (w_data w')" if "sy_mode s = HostLoss"
    using SyncFile_durable [OF b that] quiet_data [OF q] by (simp add: w'3)
qed

lemma repairTail_success:
  assumes "result (repairTail wr) w = Inr u"
  defines "w' \<equiv> exec (repairTail wr) w"
  shows "w_data w' = whole (w_data w)"
    "sy_mode (wr_syncer wr) = HostLoss \<Longrightarrow> \<not> terminated (w_data w) \<Longrightarrow> w_durable w' = length (w_data w')"
proof -
  let ?stat = "exec (perform (Stat EventsFile)) w"
  let ?len = "length (w_data w)"
  let ?read = "exec (perform (ReadAt (?len - Suc 0) (Suc 0))) ?stat"
  let ?trunc = "truncateTail (wr_syncer wr) ?len"
  have q: "quiet w ?stat" "quiet w ?read"
    by (intro quiet_step quiet_refl harmless_simps)+
  then have d: "w_data ?stat = w_data w" "w_data ?read = w_data w"
    by (simp_all add: quiet_data)
  consider (empty) "w_data w = []" "w' = ?stat"
    | (whole) "w_data w \<noteq> []" "last (w_data w) = LF" "w' = ?read"
    | (torn) "w_data w \<noteq> []" "last (w_data w) \<noteq> LF" "w' = exec ?trunc ?read" "result ?trunc ?read = Inr u"
    using assms(1) unfolding w'_def repairTail_def
    by (auto simp: try_call_def exec_bind result_bind d Let_def last_conv_nth split: option.splits if_splits)
  then have "w_data w' = whole (w_data w) \<and>
    (sy_mode (wr_syncer wr) = HostLoss \<and> \<not> terminated (w_data w) \<longrightarrow> w_durable w' = length (w_data w'))"
  proof cases
    case torn
    then show ?thesis
      using truncateTail_success [of "wr_syncer wr" ?read u] by (simp add: d)
  qed (simp_all add: d terminated_def whole_terminated)
  then show "w_data w' = whole (w_data w)"
    "sy_mode (wr_syncer wr) = HostLoss \<Longrightarrow> \<not> terminated (w_data w) \<Longrightarrow> w_durable w' = length (w_data w')"
    by simp_all
qed

lemma keeps_repairTail:
  assumes "\<And>c. harmless c \<Longrightarrow> keeps P (perform c)" "\<And>n. keeps P (perform (Truncate n))"
  shows "keeps P (repairTail wr)"
  unfolding repairTail_def truncateTail_def
  by (intro io_rules assms harmless_programs harmless_lastNewlineOffset harmless_simps)

section \<open>The lock\<close>

lemma hoare_get: "(\<And>w. P w \<Longrightarrow> hoare (\<lambda>v. v = w) (f w) Q) \<Longrightarrow> hoare P (State_Monad.bind State_Monad.get f) Q"
  by (simp add: hoare_def run_simps)

lemma hoare_return: "(\<And>w. P w \<Longrightarrow> Q a w) \<Longrightarrow> hoare P (State_Monad.return a) Q"
  by (simp add: hoare_def)

lemma hoare_vacuous: "(\<And>w. \<not> P w) \<Longrightarrow> hoare P m Q"
  by (simp add: hoare_def)

lemma hoare_try_call:
  "hoare P (perform c) (\<lambda>r w. r = None \<longrightarrow> R w) \<Longrightarrow> hoare P (perform c) (\<lambda>r w. \<forall>e. r = Some e \<longrightarrow> Q (Inl (wrap e)) w)
    \<Longrightarrow> hoare R k Q \<Longrightarrow> hoare P (try_call c wrap k) Q"
  by (simp add: hoare_def try_call_def run_simps split: option.split)

lemma hoare_try_io:
  "hoare P m (\<lambda>r w. case r of Inl e \<Rightarrow> Q (Inl (wrap e)) w | Inr b \<Rightarrow> R b w) \<Longrightarrow> (\<And>b. hoare (R b) (k b) Q)
    \<Longrightarrow> hoare P (try_io m wrap k) Q"
  by (simp add: hoare_def try_io_def run_simps split: sum.split_asm sum.split)

text \<open>
  A process that asks for the lock while it is held through an older descriptor never gets it, and
  leaves everything as it was.
\<close>

definition lock_fresh :: "world \<Rightarrow> bool" where
  "lock_fresh w \<longleftrightarrow> (\<forall>fd. w_lock w = Some fd \<longrightarrow> fd < length (w_log w))"

lemma quiet_log: "quiet w0 w \<Longrightarrow> length (w_log w0) \<le> length (w_log w)"
  by (auto simp: quiet_def steady_def prefix_length_le)

lemma locked_calls:
  assumes "w_lock w0 = Some held" "held \<noteq> fd"
  shows "keeps (quiet w0) (perform (Close (LockFile fd)))"
    and "hoare (quiet w0) (perform (Flock fd)) (\<lambda>r w. quiet w0 w \<and> r \<noteq> None)"
proof -
  show "keeps (quiet w0) (perform (Close (LockFile fd)))"
    by (rule keeps_call) (use assms in \<open>auto simp: effect_def close_effect_def partial_effect_def quiet_lock\<close>)
  have k: "keeps (quiet w0) (perform (Flock fd))"
    by (rule keeps_call) (use assms in \<open>auto simp: refused_def partial_effect_def quiet_lock\<close>)
  have n: "result (perform (Flock fd)) w \<noteq> None" if "quiet w0 w" for w
    using call_success(2) [of "Flock fd" w] assms quiet_lock [OF that] by (auto simp: refused_def)
  show "hoare (quiet w0) (perform (Flock fd)) (\<lambda>r w. quiet w0 w \<and> r \<noteq> None)"
    using k n by (simp add: hoare_def)
qed

lemma lockFile_locked:
  assumes "w_lock w0 = Some held" "held \<noteq> fd"
  shows "hoare (quiet w0) (lockFile fd s) (\<lambda>r w. quiet w0 w \<and> isl r)"
proof -
  have c: "hoare (quiet w0) (close_fail (LockFile fd) e) (\<lambda>r w. quiet w0 w \<and> isl r)" for e
    unfolding close_fail_def
    by (rule hoare_bind [OF locked_calls(1) [OF assms]]) (rule hoare_return, simp)
  show ?thesis
    unfolding lockFile_def
  proof (rule hoare_bind)
    show "keeps (quiet w0) (verifyState (LockFile fd) s)" by (rule quiet_programs)
    fix r show "hoare (quiet w0)
        (case r of Inl e \<Rightarrow> close_fail (LockFile fd) e
         | Inr _ \<Rightarrow> State_Monad.bind (perform (Flock fd)) (\<lambda>r. case r of None \<Rightarrow> State_Monad.return (Inr fd)
              | Some e \<Rightarrow> close_fail (LockFile fd) (if e = EWOULDBLOCK then Locked else LockFailed e)))
        (\<lambda>r w. quiet w0 w \<and> isl r)"
    proof (cases r)
      case (Inr b)
      then show ?thesis
        by simp (rule hoare_bind [OF locked_calls(2) [OF assms]], auto split: option.split intro: hoare_conseq [OF c] hoare_vacuous)
    qed (simp add: c)
  qed
qed

lemma hoare_try_harmless:
  assumes "keeps P (perform c)" "\<And>e w. P w \<Longrightarrow> Q (Inl (wrap e)) w" "hoare P k Q"
  shows "hoare P (try_call c wrap k) Q"
  by (rule hoare_try_call [where R = P]) (use assms in \<open>auto simp: hoare_def\<close>)

lemma acquire_locked:
  assumes "w_lock w0 = Some held" "held < length (w_log w0)"
  shows "hoare (quiet w0) (acquireWriterLock root source s) (\<lambda>r w. quiet w0 w \<and> isl r)"
  unfolding acquireWriterLock_def
proof (rule hoare_try_harmless [OF harmless_call _ hoare_get])
  fix w assume "quiet w0 w"
  then have "held \<noteq> length (w_log w)"
    using quiet_log [of w0 w] assms(2) by simp
  then have h: "hoare (quiet w0) (lockFile (length (w_log w)) s) (\<lambda>r w. quiet w0 w \<and> isl r)"
    by (rule lockFile_locked [OF assms(1)])
  have "hoare (quiet w0) (try_call (OpenLock (writerLockPath root source)) LockOpenFailed (lockFile (length (w_log w)) s))
      (\<lambda>r w. quiet w0 w \<and> isl r)"
    by (rule hoare_try_harmless [OF harmless_call _ h]) simp_all
  then show "hoare (\<lambda>v. v = w) (try_call (OpenLock (writerLockPath root source)) LockOpenFailed (lockFile (length (w_log w)) s))
      (\<lambda>r w. quiet w0 w \<and> isl r)"
    by (rule hoare_conseq) (simp_all add: \<open>quiet w0 w\<close>)
qed simp_all

lemma Open_locked:
  assumes "w_lock w = Some held" "held < length (w_log w)"
  shows "quiet w (exec (Open root source s) w) \<and> isl (result (Open root source s) w)"
proof -
  have "hoare (quiet w) (Open root source s) (\<lambda>r w'. quiet w w' \<and> isl r)"
  proof (cases "validate_slug ''source'' source")
    case None
    have acq: "hoare (quiet w) (try_io (acquireWriterLock root source s) (\<lambda>e. e) (openLocked root source s))
        (\<lambda>r w'. quiet w w' \<and> isl r)"
      by (rule hoare_try_io [where R = "\<lambda>_ _. False"])
        (auto intro: hoare_conseq [OF acquire_locked [OF assms]] hoare_vacuous split: sum.splits)
    show ?thesis
      by (simp add: Open_def None, rule hoare_try_io [where R = "\<lambda>_. quiet w"])
        (auto intro: hoare_conseq [OF quiet_programs(5)] acq split: sum.splits)
  qed (simp add: Open_def hoare_return)
  then show ?thesis by (simp add: hoare_def)
qed

text \<open>While the lock is free, whoever gets it holds it through its own new descriptor.\<close>

definition holding :: "world \<Rightarrow> nat \<Rightarrow> world \<Rightarrow> bool" where
  "holding w0 fd w \<longleftrightarrow> quiet (w0\<lparr>w_lock := Some fd\<rparr>) w \<and> length (w_log w0) \<le> fd \<and> fd < length (w_log w)"

lemma quiet_lock_call:
  assumes "quiet w0 w"
  shows "quiet (w0\<lparr>w_lock := Some fd\<rparr>) (logged (Flock fd) None (effect (Flock fd) w))"
  using assms by (simp add: quiet_def steady_def effect_def logged_def)

lemma free_calls:
  assumes "w_lock w0 = None"
  shows "keeps (quiet w0) (perform (Close (LockFile fd)))"
    and "hoare (\<lambda>w. quiet w0 w \<and> length (w_log w0) \<le> fd \<and> fd < length (w_log w)) (perform (Flock fd))
      (\<lambda>r w. case r of None \<Rightarrow> holding w0 fd w | Some e \<Rightarrow> quiet w0 w)"
proof -
  show "keeps (quiet w0) (perform (Close (LockFile fd)))"
    by (rule keeps_call) (use assms in \<open>auto simp: effect_def close_effect_def partial_effect_def quiet_lock\<close>)
  show "hoare (\<lambda>w. quiet w0 w \<and> length (w_log w0) \<le> fd \<and> fd < length (w_log w)) (perform (Flock fd))
      (\<lambda>r w. case r of None \<Rightarrow> holding w0 fd w | Some e \<Rightarrow> quiet w0 w)"
  proof (rule hoareI)
    fix w assume w: "quiet w0 w \<and> length (w_log w0) \<le> fd \<and> fd < length (w_log w)"
    then have l: "fd < length (w_log (logged (Flock fd) None (effect (Flock fd) w)))"
      by (simp add: logged_def effect_def)
    show "case result (perform (Flock fd)) w of None \<Rightarrow> holding w0 fd (exec (perform (Flock fd)) w)
        | Some e \<Rightarrow> quiet w0 (exec (perform (Flock fd)) w)"
      using w
      by (cases rule: run_call_cases [of w "Flock fd"])
        (simp_all add: exec_perform result_perform partial_effect_def holding_def quiet_lock_call l)
  qed
qed

lemma close_fail_free:
  assumes "w_lock w0 = None"
  shows "hoare (quiet w0) (close_fail (LockFile fd) e) (\<lambda>r w. quiet w0 w \<and> r = Inl e)"
  unfolding close_fail_def by (rule hoare_bind [OF free_calls(1) [OF assms]]) (simp add: hoare_return)

definition acquired :: "world \<Rightarrow> 'e + nat \<Rightarrow> world \<Rightarrow> bool" where
  "acquired w0 r w = (case r of Inl _ \<Rightarrow> quiet w0 w | Inr fd \<Rightarrow> holding w0 fd w)"

lemma acquired_simps [simp]:
  "acquired w0 (Inl e) w = quiet w0 w" "acquired w0 (Inr fd) w = holding w0 fd w"
  by (simp_all add: acquired_def)

lemma lockFile_free:
  assumes "w_lock w0 = None"
  shows "hoare (\<lambda>w. quiet w0 w \<and> length (w_log w0) \<le> fd \<and> fd < length (w_log w)) (lockFile fd s) (acquired w0)"
    (is "hoare ?P _ ?Q")
proof -
  have p: "keeps ?P (perform c)" if "harmless c" for c
    by (rule keeps_call)
      (use that in \<open>auto simp: logged_def intro: quiet_trans effect_quiet partial_effect_quiet quiet_logged [unfolded logged_def]\<close>)
  have c: "hoare (quiet w0) (close_fail (LockFile fd) e) ?Q" for e
    by (rule hoare_conseq [OF close_fail_free [OF assms]]) auto
  have c': "hoare ?P (close_fail (LockFile fd) e) ?Q" for e
    by (rule hoare_conseq [OF c]) simp_all
  have f: "hoare ?P (State_Monad.bind (perform (Flock fd)) (\<lambda>r. case r of None \<Rightarrow> State_Monad.return (Inr fd)
      | Some e \<Rightarrow> close_fail (LockFile fd) (if e = EWOULDBLOCK then Locked else LockFailed e))) ?Q"
    by (rule hoare_bind [OF free_calls(2) [OF assms]]) (simp add: hoare_return c split: option.split)
  show ?thesis
    unfolding lockFile_def
    by (rule hoare_bind [OF harmless_programs(6) [OF p]]) (auto intro: c' f split: sum.split)
qed

lemma acquire_free:
  assumes "w_lock w0 = None"
  shows "hoare (quiet w0) (acquireWriterLock root source s) (acquired w0)"
  unfolding acquireWriterLock_def
proof (rule hoare_try_harmless [OF harmless_call _ hoare_get])
  fix w assume w: "quiet w0 w"
  let ?fd = "length (w_log w)"
  let ?open = "OpenLock (writerLockPath root source)"
  show "hoare (\<lambda>v. v = w) (try_call ?open LockOpenFailed (lockFile ?fd s)) (acquired w0)"
  proof (rule hoare_try_call [OF _ _ lockFile_free [OF assms]])
    show "hoare (\<lambda>v. v = w) (perform ?open) (\<lambda>r v. r = None \<longrightarrow> quiet w0 v \<and> length (w_log w0) \<le> ?fd \<and> ?fd < length (w_log v))"
      using quiet_step [OF w, of ?open] quiet_log [OF w] call_success(3) [of ?open w]
      by (auto simp: hoare_def logged_def)
    show "hoare (\<lambda>v. v = w) (perform ?open) (\<lambda>r v. \<forall>e. r = Some e \<longrightarrow> acquired w0 (Inl (LockOpenFailed e)) v)"
      using quiet_step [OF w, of ?open] by (simp add: hoare_def)
  qed
qed simp_all

section \<open>Opening\<close>

text \<open>In the stronger mode a directory sync makes the entries of that directory durable.\<close>

lemma SyncDir_durable:
  assumes "result (SyncDir s dir) w = Inr u" "sy_mode s = HostLoss"
  defines "w' \<equiv> exec (SyncDir s dir) w"
  shows "dir = h_root (w_host w) \<Longrightarrow> w_dir_exists w \<Longrightarrow> w_dir_entry_durable w'"
    and "dir = h_events_dir (w_host w) \<Longrightarrow> w_file_exists w \<Longrightarrow> w_file_entry_durable w'"
proof -
  let ?sync = "err_io (syncAt (sy_mode s) (DirHandle dir)) SyncDirFailed (State_Monad.return (Inr ()))"
  let ?body = "try_io (VerifyFile s (DirHandle dir)) (\<lambda>e. e) (\<lambda>_. ?sync)"
  let ?w1 = "exec (perform (OpenDir dir)) w"
  let ?w2 = "exec (VerifyFile s (DirHandle dir)) ?w1"
  let ?c = "full_sync (h_platform (w_host ?w2)) (DirHandle dir)"
  have v: "Verified s" using assms(1) by (auto simp: SyncDir_def split: if_split_asm)
  obtain r1: "result ?body ?w1 = Inr u" and e1: "w' = exec (perform (Close (DirHandle dir))) (exec ?body ?w1)"
    using assms(1) v unfolding SyncDir_def w'_def by simp (erule try_call_InrE, simp add: exec_deferred)
  obtain b where r2: "result ?sync ?w2 = Inr u" and e2: "exec ?body ?w1 = exec ?sync ?w2"
    using r1 by (rule try_io_InrE) simp
  obtain r3: "result (perform ?c) ?w2 = None" and e3: "exec ?sync ?w2 = exec (perform ?c) ?w2"
    by (rule err_syncAt_InrE [OF r2]) (simp add: assms(2) mode_sync_def)
  have q1: "quiet w ?w2"
    by (intro quiet_trans [OF _ quiet_exec] quiet_programs quiet_step) simp_all
  have q2: "quiet (exec (perform ?c) ?w2) w'"
    unfolding e1 e2 e3 by (rule quiet_step) simp_all
  note s1 = quiet_steady [OF q1] and s2 = quiet_steady [OF q2]
  have e: "exec (perform ?c) ?w2 = logged ?c None (sync_effect (DirHandle dir) ?w2)"
    using call_success(3) [OF r3] by (simp add: effect_def full_sync_def reaches_storage_def split: platform.splits)
  show "w_dir_entry_durable w'" if "dir = h_root (w_host w)" "w_dir_exists w"
  proof -
    have "w_dir_entry_durable (exec (perform ?c) ?w2)"
      unfolding e using that s1 by (simp add: logged_def sync_effect_def steady_def)
    then show ?thesis using s2 unfolding steady_def by blast
  qed
  show "w_file_entry_durable w'" if "dir = h_events_dir (w_host w)" "w_file_exists w"
  proof -
    have "w_file_entry_durable (exec (perform ?c) ?w2)"
      unfolding e using that s1 by (simp add: logged_def sync_effect_def steady_def)
    then show ?thesis using s2 unfolding steady_def by blast
  qed
qed

lemma steady_exec: "keeps (quiet w) m \<Longrightarrow> steady w (exec m w)"
  by (rule quiet_steady [OF quiet_exec])

lemmas steady_programs = quiet_programs [THEN steady_exec]

lemma steady_perform: "steady w (exec (perform c) w)"
  by (rule hoareD [OF keeps_call [where P = "steady w"]]) (auto intro: steady_trans)

lemma openEventsFile_durable:
  assumes "result (openEventsFile root source s) w = Inr u" "sy_mode s = HostLoss"
    and "h_root (w_host w) = root" "h_events_dir (w_host w) = eventsDir root"
  shows "entries_durable (exec (openEventsFile root source s) w)"
proof -
  let ?open = "\<lambda>_. try_call (OpenEvents (eventsPath root source)) EventsOpenFailed (verifyEvents root s)"
  let ?w1 = "exec (perform (MkdirAll (eventsDir root))) w"
  let ?w2 = "exec (SyncDir s root) ?w1"
  let ?w3 = "exec (perform (OpenEvents (eventsPath root source))) ?w2"
  let ?w4 = "exec (verifyState EventsFile s) ?w3"
  let ?w5 = "exec (SyncDir s (eventsDir root)) ?w4"
  obtain m: "result (perform (MkdirAll (eventsDir root))) w = None"
    and r1: "result (try_io (SyncDir s root) SyncFailed ?open) ?w1 = Inr u"
    and e1: "exec (openEventsFile root source s) w = exec (try_io (SyncDir s root) SyncFailed ?open) ?w1"
    using assms(1) unfolding openEventsFile_def by (rule try_call_InrE)
  obtain b where s1: "result (SyncDir s root) ?w1 = Inr b" and r2: "result (?open b) ?w2 = Inr u"
    and e2: "exec (try_io (SyncDir s root) SyncFailed ?open) ?w1 = exec (?open b) ?w2"
    using r1 by (rule try_io_InrE)
  obtain o: "result (perform (OpenEvents (eventsPath root source))) ?w2 = None"
    and r3: "result (verifyEvents root s) ?w3 = Inr u" and e3: "exec (?open b) ?w2 = exec (verifyEvents root s) ?w3"
    using r2 by (rule try_call_InrE)
  obtain b' where s2: "result (SyncDir s (eventsDir root)) ?w4 = Inr b'"
    and e4: "exec (verifyEvents root s) ?w3 = ?w5"
    using r3 by (auto simp: verifyEvents_def close_fail_def result_bind exec_bind split: sum.splits)
  have "steady ?w1 ?w2" by (rule steady_programs)
  moreover have "steady ?w2 ?w3" by (rule steady_perform)
  moreover have "steady ?w3 ?w4" by (rule steady_programs)
  moreover have "steady ?w4 ?w5" by (rule steady_programs)
  ultimately have st: "steady ?w1 ?w2" "steady ?w2 ?w3" "steady ?w3 ?w4" "steady ?w4 ?w5" .
  have h: "w_host ?w1 = w_host w" "w_host ?w4 = w_host w"
    using st(1-3) by (simp_all add: steady_def)
  have "w_dir_exists ?w1"
    using call_success(3) [OF m] assms(4) by (simp add: effect_def logged_def)
  then have "w_dir_entry_durable ?w2"
    using SyncDir_durable(1) [OF s1 assms(2)] by (simp add: assms(3))
  then have d: "w_dir_entry_durable ?w5"
    using st unfolding steady_def by blast
  have "w_file_exists ?w3"
    using call_success(3) [OF o] by (simp add: effect_def logged_def)
  then have "w_file_exists ?w4"
    using st(3) unfolding steady_def by blast
  then have "w_file_entry_durable ?w5"
    using SyncDir_durable(2) [OF s2 assms(2)] by (simp only: h assms(4))
  then show ?thesis
    using d by (simp only: e1 e2 e3 e4 entries_durable_def)
qed

lemma Close_lock:
  assumes "w_lock w = Some fd"
  shows "w_lock (exec (perform (Close (LockFile fd))) w) = None
    \<or> w_dead (exec (perform (Close (LockFile fd))) w) \<and> w_lock (exec (perform (Close (LockFile fd))) w) = Some fd"
  using assms
  by (cases rule: run_call_cases [of w "Close (LockFile fd)"])
    (simp_all add: exec_perform effect_def close_effect_def partial_effect_def logged_def refused_def)

text \<open>
  What an attempt to open promises, started in \<open>w0\<close> with the lock free. On an error the lock is free
  again, or the process died and takes it to its grave; on success the writer holds it and the file
  is made of whole lines.
\<close>

definition opened :: "bytes \<Rightarrow> bytes \<Rightarrow> syncer \<Rightarrow> world \<Rightarrow> spool_error + writer \<Rightarrow> world \<Rightarrow> bool" where
  "opened root source s w0 r w \<longleftrightarrow>
    repairing w0 w
    \<and> (case r of
         Inl e \<Rightarrow> w_lock w = None \<or> w_dead w \<and> (\<exists>fd \<ge> length (w_log w0). w_lock w = Some fd)
       | Inr wr \<Rightarrow>
           wr = \<lparr>wr_source = source, wr_lock = wr_lock wr, wr_syncer = s, wr_broken = None\<rparr>
           \<and> w_lock w = Some (wr_lock wr) \<and> length (w_log w0) \<le> wr_lock wr \<and> wr_lock wr < length (w_log w)
           \<and> w_data w = whole (w_data w0)
           \<and> (sy_mode s = HostLoss \<longrightarrow> \<not> terminated (w_data w0) \<longrightarrow> w_durable w = length (w_data w))
           \<and> (sy_mode s = HostLoss \<longrightarrow> h_root (w_host w0) = root \<longrightarrow> h_events_dir (w_host w0) = eventsDir root
                \<longrightarrow> entries_durable w))"

lemma repairing_holding: "repairing (w0\<lparr>w_lock := x\<rparr>) w = repairing w0 w" "steady (w0\<lparr>w_lock := x\<rparr>) w = steady w0 w"
  by (simp_all add: repairing_def steady_def)

lemma holding_facts:
  assumes "holding w0 fd w"
  shows "repairing w0 w" "steady w0 w" "w_lock w = Some fd" "w_data w = w_data w0"
    "length (w_log w0) \<le> fd" "fd < length (w_log w)"
proof -
  have q: "quiet (w0\<lparr>w_lock := Some fd\<rparr>) w" and "length (w_log w0) \<le> fd" "fd < length (w_log w)"
    using assms by (simp_all add: holding_def)
  then show "length (w_log w0) \<le> fd" "fd < length (w_log w)" by simp_all
  show "w_lock w = Some fd" "w_data w = w_data w0" using quiet_lock [OF q] quiet_data [OF q] by simp_all
  show "repairing w0 w" "steady w0 w"
    using quiet_repairing [OF q] quiet_steady [OF q] by (simp_all only: repairing_holding)
qed

lemma holding_quiet: "holding w0 fd w \<Longrightarrow> quiet w w' \<Longrightarrow> holding w0 fd w'"
  using quiet_trans quiet_log by (fastforce simp: holding_def)

lemma repairing_trans_data:
  assumes "repairing w0 w1" "repairing w1 w2" "w_data w1 = w_data w0"
  shows "repairing w0 w2"
  using assms steady_trans [of w0 w1 w2] by (auto simp: repairing_def)

lemma CloseWriter_opened:
  assumes "repairing w0 w" "w_lock w = Some fd" "length (w_log w0) \<le> fd"
  shows "opened root source s w0 (Inl e) (exec (perform (Close (LockFile fd))) w)"
  using hoareD [OF repairing_lock_calls(2) assms(1)] Close_lock [OF assms(2)] assms(3)
  by (auto simp: opened_def)

lemma keeps_lock:
  "harmless c \<Longrightarrow> keeps (\<lambda>w. w_lock w = L) (perform c)" "keeps (\<lambda>w. w_lock w = L) (perform (Truncate n))"
proof -
  show "keeps (\<lambda>w. w_lock w = L) (perform c)" if "harmless c"
    by (rule keeps_call)
      (use quiet_lock [OF effect_quiet [OF that]] quiet_lock [OF partial_effect_quiet [OF that]] in \<open>simp_all add: logged_def\<close>)
  show "keeps (\<lambda>w. w_lock w = L) (perform (Truncate n))"
    by (rule keeps_call) (simp_all add: effect_def partial_effect_def logged_def)
qed

lemma openLocked_opened:
  assumes w: "holding w0 fd w"
  shows "opened root source s w0 (result (openLocked root source s fd) w) (exec (openLocked root source s fd) w)"
proof -
  let ?wr = "\<lparr>wr_source = source, wr_lock = fd, wr_syncer = s, wr_broken = None\<rparr>"
  let ?w1 = "exec (openEventsFile root source s) w"
  let ?w2 = "exec (repairTail ?wr) ?w1"
  have h1: "holding w0 fd ?w1"
    by (intro holding_quiet [OF w] quiet_exec quiet_programs)
  note f1 = holding_facts [OF h1]
  have r12: "repairing ?w1 ?w2" by (rule repairTail_repairing)
  have r2: "repairing w0 ?w2" by (rule repairing_trans_data [OF f1(1) r12 f1(4)])
  have l2: "w_lock ?w2 = Some fd"
    by (rule hoareD [OF keeps_repairTail [OF keeps_lock]]) (simp_all add: f1(3))
  show ?thesis
  proof (cases "result (openEventsFile root source s) w")
    case (Inl e)
    then show ?thesis
      using CloseWriter_opened [OF f1(1,3,5)] by (simp add: openLocked_def close_fail_def run_simps)
  next
    case o: (Inr u)
    have run: "result (openLocked root source s fd) w = result (repairOrClose ?wr) ?w1"
      "exec (openLocked root source s fd) w = exec (repairOrClose ?wr) ?w1"
      using o by (simp_all add: openLocked_def run_simps)
    show ?thesis
    proof (cases "result (repairTail ?wr) ?w1")
      case (Inl e)
      let ?w3 = "exec (perform (Close EventsFile)) ?w2"
      have q3: "quiet ?w2 ?w3" by simp
      have "opened root source s w0 (Inl e) (exec (perform (Close (LockFile fd))) ?w3)"
        using CloseWriter_opened [OF repairing_quiet [OF r2 q3] _ f1(5)] quiet_lock [OF q3] l2 by simp
      then show ?thesis
        using Inl unfolding run by (simp add: repairOrClose_def CloseWriter_def exec_bind result_bind)
    next
      case r: (Inr u')
      have "repairing w0 ?w2 \<and> length (w_log ?w1) \<le> length (w_log ?w2)"
        using r2 r12 by (auto simp: repairing_def steady_def prefix_length_le)
      moreover have "entries_durable ?w2"
        if "sy_mode s = HostLoss" "h_root (w_host w0) = root" "h_events_dir (w_host w0) = eventsDir root"
      proof -
        have "steady ?w1 ?w2" using r12 by (simp add: repairing_def)
        moreover have "entries_durable ?w1"
          using openEventsFile_durable [OF o that(1)] that steady_host [OF holding_facts(2) [OF w]] by simp
        ultimately show ?thesis by (rule steady_entries)
      qed
      ultimately show ?thesis
        using r repairTail_success [OF r] l2 f1 unfolding run
        by (simp add: opened_def repairOrClose_def run_simps)
    qed
  qed
qed

lemma Open_opened:
  assumes "w_lock w = None"
  shows "opened root source s w (result (Open root source s) w) (exec (Open root source s) w)"
proof -
  let ?Q = "opened root source s w"
  have q: "?Q (Inl e) v" if "quiet w v" for e v
    using quiet_repairing [OF that] quiet_lock [OF that] assms by (simp add: opened_def)
  have l: "hoare (holding w fd) (openLocked root source s fd) ?Q" for fd
    by (rule hoareI) (rule openLocked_opened)
  have acq: "hoare (quiet w) (try_io (acquireWriterLock root source s) (\<lambda>e. e) (openLocked root source s)) ?Q"
    by (rule hoare_try_io [where R = "holding w"], rule hoare_conseq [OF acquire_free [OF assms]])
      (auto simp: acquired_def l q split: sum.splits)
  have "hoare (quiet w) (Open root source s) ?Q"
  proof (cases "validate_slug ''source'' source")
    case None
    show ?thesis
      by (simp add: Open_def None, rule hoare_try_io [where R = "\<lambda>_. quiet w"])
        (auto intro: hoare_conseq [OF quiet_programs(5)] acq q split: sum.splits)
  qed (simp add: Open_def hoare_return q)
  then show ?thesis by (simp add: hoare_def)
qed

section \<open>Appending\<close>

text \<open>The checks before a record is written.\<close>

definition record_error :: "bytes \<Rightarrow> spool_error option" where
  "record_error r =
    (if r = [] then Some EmptyRecord else map_option EmbeddedLineBreak (find (\<lambda>b. sublist b r) lineBreaks))"

lemma line_break_LF: "find (\<lambda>b. sublist b r) lineBreaks = None \<Longrightarrow> LF \<notin> set r"
proof
  assume n: "find (\<lambda>b. sublist b r) lineBreaks = None" and "LF \<in> set r"
  then obtain xs ys where "r = xs @ LF # ys" by (auto dest: split_list)
  then have "sublist [LF] r"
    using sublist_appendI [of "[LF]" xs ys] by simp
  then show False using n by (simp add: lineBreaks_def)
qed

lemma record_error_LF: "record_error r = None \<Longrightarrow> LF \<notin> set r"
  by (simp add: record_error_def line_break_LF split: if_split_asm)

lemma Append_refused:
  assumes "wr_broken wr = Some e \<or> wr_broken wr = None \<and> record_error r = Some e"
  shows "result (Append wr r) w = (Some e, wr) \<and> exec (Append wr r) w = w"
  using assms by (auto simp: Append_def record_error_def split: option.split if_split_asm)

text \<open>A write puts a prefix of its bytes at the end of the file, all of them when it succeeds.\<close>

lemma write_call:
  defines "w' \<equiv> \<lambda>w b. exec (perform (Write EventsFile b)) w"
  shows "\<exists>k. w_data (w' w b) = w_data w @ take k b \<and> (result (perform (Write EventsFile b)) w = None \<longrightarrow> length b \<le> k)"
    and "w_lock (w' w b) = w_lock w" "w_durable (w' w b) = w_durable w" "steady w (w' w b)"
proof -
  have "steady w (w' w b) \<and> w_lock (w' w b) = w_lock w \<and> w_durable (w' w b) = w_durable w
    \<and> (\<exists>k. w_data (w' w b) = w_data w @ take k b \<and> (result (perform (Write EventsFile b)) w = None \<longrightarrow> length b \<le> k))"
  proof (cases rule: run_call_cases [of w "Write EventsFile b"])
    case dead
    then show ?thesis
      by (intro conjI exI [of _ 0]) (simp_all add: w'_def exec_perform result_perform)
  next
    case completed
    then show ?thesis
      by (intro conjI exI [of _ "length b"]) (simp_all add: w'_def exec_perform result_perform effect_def steady_def logged_def)
  next
    case (failed e k)
    then show ?thesis
      by (intro conjI exI [of _ k])
        (simp_all add: w'_def exec_perform result_perform effect_def partial_effect_def steady_def logged_def)
  next
    case (died k)
    then show ?thesis
      by (intro conjI exI [of _ k])
        (simp_all add: w'_def exec_perform result_perform effect_def partial_effect_def steady_def logged_def)
  qed (simp add: refused_def)
  then show "\<exists>k. w_data (w' w b) = w_data w @ take k b \<and> (result (perform (Write EventsFile b)) w = None \<longrightarrow> length b \<le> k)"
    and "w_lock (w' w b) = w_lock w" "w_durable (w' w b) = w_durable w" "steady w (w' w b)"
    by simp_all
qed

text \<open>What an admissible append by an unbroken writer may do, and what it promises when it accepts.\<close>

definition appended :: "writer \<Rightarrow> bytes \<Rightarrow> world \<Rightarrow> spool_error option \<times> writer \<Rightarrow> world \<Rightarrow> bool" where
  "appended wr r w res w' \<longleftrightarrow>
    steady w w' \<and> w_lock w' = w_lock w \<and> (w_durable w' = w_durable w \<or> w_durable w' = length (w_data w'))
    \<and> (\<exists>k. w_data w' = write_line (w_data w) r k
      \<and> (case fst res of
           None \<Rightarrow> snd res = wr \<and> length r < k
             \<and> (sy_mode (wr_syncer wr) = HostLoss \<longrightarrow> w_durable w' = length (w_data w'))
         | Some e \<Rightarrow> snd res = wr\<lparr>wr_broken := Some e\<rparr> \<and> ((\<exists>c. e = BrokenWrite c) \<or> (\<exists>c. e = BrokenSync c))))"

lemma Append_appended:
  assumes "wr_broken wr = None" "record_error r = None"
  shows "appended wr r w (result (Append wr r) w) (exec (Append wr r) w)"
proof -
  let ?put = "Write EventsFile (r @ [LF])"
  let ?w1 = "exec (perform ?put) w"
  let ?w2 = "exec (SyncFile (wr_syncer wr) EventsFile) ?w1"
  have "r \<noteq> []" "find (\<lambda>b. sublist b r) lineBreaks = None"
    using assms(2) by (auto simp: record_error_def split: if_split_asm)
  then have a: "Append wr r = State_Monad.bind (perform ?put)
      (\<lambda>x. case x of
         Some e \<Rightarrow> State_Monad.return (Some (BrokenWrite e), wr\<lparr>wr_broken := Some (BrokenWrite e)\<rparr>)
       | None \<Rightarrow> State_Monad.bind (SyncFile (wr_syncer wr) EventsFile)
          (\<lambda>x. case x of
             Inl e \<Rightarrow> State_Monad.return (Some (BrokenSync e), wr\<lparr>wr_broken := Some (BrokenSync e)\<rparr>)
           | Inr _ \<Rightarrow> State_Monad.return (None, wr)))"
    using assms(1) by (simp add: Append_def)
  obtain k where k: "w_data ?w1 = write_line (w_data w) r k"
    "result (perform ?put) w = None \<Longrightarrow> length r < k"
    using write_call(1) [where w = w and b = "r @ [LF]"] by (auto simp: write_line_def Suc_le_eq)
  note c = write_call(2-4) [where w = w and b = "r @ [LF]"]
  have q: "quiet ?w1 ?w2" by (intro quiet_exec quiet_programs)
  have s: "steady w ?w2" by (rule steady_trans [OF c(3) quiet_steady [OF q]])
  have d: "w_durable ?w2 = w_durable w \<or> w_durable ?w2 = length (w_data ?w2)"
    using q c(2) by (auto simp: quiet_def)
  show ?thesis
  proof (cases "result (perform ?put) w")
    case (Some e)
    then show ?thesis using k c by (auto simp: a exec_bind result_bind appended_def)
  next
    case None
    then show ?thesis
      using k c(1) s d quiet_data [OF q] quiet_lock [OF q] SyncFile_durable [of "wr_syncer wr" ?w1]
      by (cases "result (SyncFile (wr_syncer wr) EventsFile) ?w1")
        (auto simp: a exec_bind result_bind appended_def intro!: exI [of _ k])
  qed
qed

lemma write_line_lines:
  assumes "record_error r = None"
  shows "terminated d \<Longrightarrow> complete_lines (write_line d r k) = complete_lines d @ (if length r < k then [r] else [])"
  using record_error_LF [OF assms] by (rule spool_log.records_write [rotated])

lemma lineBreaks_runes: "lineBreaks = map encode_rune [10, 13, 133, 8232, 8233]"
  using char_of_bval_eq [of LF 10] char_of_bval_eq [of "CHR 0x0D" 13] by (simp add: lineBreaks_def)

lemma find_map_None: "(\<And>r. r \<in> set rs \<Longrightarrow> \<not> P (f r)) \<Longrightarrow> find P (map f rs) = None"
  by (induction rs) auto

lemma canonical_admissible:
  assumes "value_ok v"
  shows "record_error (canon v) = None"
proof -
  have "\<not> sublist (encode_rune r) (canon v)" if "r \<in> set [10, 13, 133, 8232, 8233]" for r
    using that by (intro one_line_no_break one_line_canon assms) (auto simp: line_break_rune_def line_boundary_def scalar_def)
  then have "find (\<lambda>b. sublist b (canon v)) lineBreaks = None"
    unfolding lineBreaks_runes by (rule find_map_None)
  then show ?thesis
    using canon_nonempty [OF assms] by (simp add: record_error_def)
qed

section \<open>A sample spool\<close>

text \<open>One whole record and a fragment, in an environment where every call completes.\<close>

definition sample_spool :: world where
  "sample_spool = sample_world\<lparr>w_env := (\<lambda>_. Done), w_data := [CHR ''a'', LF, CHR ''b''], w_durable := 2\<rparr>"

definition sample_writer :: writer where
  "sample_writer = \<lparr>wr_source = ''ci'', wr_lock = 1, wr_syncer = sample_syncer, wr_broken = None\<rparr>"

lemma sample_eventsDir: "eventsDir ''/srv'' = ''/srv/events''"
  by (simp add: eventsDir_def path_join_def path_clean_def clean_parts_def clean_step_def is_rooted_def)

lemma sample_slug: "validate_slug ''source'' ''ci'' = None"
  by code_simp

lemmas spool_eval = run_simps effect_def sync_effect_def close_effect_def reaches_storage_def refused_def logged_def
  try_call_def try_io_def err_io_def deferred_def full_sync_def

lemmas spool_defs = Open_def checkSyncerRoot_def acquireWriterLock_def lockFile_def verifyState_def close_fail_def
  openLocked_def openEventsFile_def verifyEvents_def repairOrClose_def repairTail_def truncateTail_def

lemma sample_sees: "Verified sample_syncer" "sy_mode sample_syncer = HostLoss" "sy_device sample_syncer = 0x801" "sy_dir sample_syncer = ''/srv''"
  by (simp_all add: sample_syncer_def Verified_def HostLoss_def)

lemma run_Done: "w_env w n = Done \<Longrightarrow> length (w_log w) = n \<Longrightarrow> \<not> w_dead w \<Longrightarrow> run_call c w =
   (case refused c w of None \<Rightarrow> (None, logged c None (effect c w)) | Some e \<Rightarrow> (Some e, logged c (Some e) w))"
  by (simp add: run_call_def)

lemma sample_lockDir: "writerLockDir ''/srv'' = ''/srv/locks/writers''"
  by (simp add: writerLockDir_def path_join_def path_clean_def clean_parts_def clean_step_def is_rooted_def)

lemmas sample_facts = sample_slug sample_eventsDir sample_sees sample_lockDir

lemma sample_open: "result (Open ''/srv'' ''ci'' sample_syncer) sample_spool = Inr sample_writer"
  by (simp add: spool_defs io_defs spool_eval run_Done sample_facts sample_spool_def sample_world_def sample_host_def
      path_clean_def clean_parts_def clean_step_def is_rooted_def lastNewlineOffset.simps tailScanChunk_def
      sample_writer_def cong: if_cong)

text \<open>The same spool when the sync after the repair's truncation fails, the last call of the open.\<close>

definition failing_spool :: world where
  "failing_spool = sample_spool\<lparr>w_env := (\<lambda>n. if n = 21 then Fail EIO 0 else Done)\<rparr>"

lemma run_Fail: "w_env w (length (w_log w)) = Fail e k \<Longrightarrow> \<not> w_dead w \<Longrightarrow> run_call c w =
   (Some e, logged c (Some e) (partial_effect k c w))"
  by (simp add: run_call_def)

lemma run_completes: "w_env w (length (w_log w)) = Done \<Longrightarrow> \<not> w_dead w \<Longrightarrow> run_call c w =
   (case refused c w of None \<Rightarrow> (None, logged c None (effect c w)) | Some e \<Rightarrow> (Some e, logged c (Some e) w))"
  by (simp add: run_call_def)

lemma failing_open:
  "result (Open ''/srv'' ''ci'' sample_syncer) failing_spool = Inl (SyncFailed (SysError EIO))"
  "\<not> w_dead (exec (Open ''/srv'' ''ci'' sample_syncer) failing_spool)"
  by (simp_all add: spool_defs io_defs spool_eval run_completes run_Fail partial_effect_def CloseWriter_def sample_facts failing_spool_def
      sample_spool_def sample_world_def sample_host_def
      path_clean_def clean_parts_def clean_step_def is_rooted_def lastNewlineOffset.simps tailScanChunk_def
      sample_writer_def cong: if_cong)
section \<open>Properties\<close>

text \<open>
  C21. The chunked backward scan returns the offset of the last newline before its end, or -1 when there
  is none, independently of how the 64 KiB chunks cut the file. The calls it makes are reads inside
  the scanned part. It returns an offset only if every one of them completed, and fails only with the
  error of its last read, which the trace of the run shows to have failed (a process that is
  already dead makes no call and gets \<open>EIO\<close>): a running process whose reads complete gets the offset.
\<close>

theorem lastNewlineOffset_reference:
  assumes "n \<le> length (w_data w)"
  shows "list_all (\<lambda>(c, r). \<exists>a k. c = ReadAt a k \<and> a + k \<le> n) (trace (lastNewlineOffset n) w)
    \<and> (case result (lastNewlineOffset n) w of
        Inr v \<Rightarrow> v = (case last_index LF (take n (w_data w)) of Some i \<Rightarrow> int i | None \<Rightarrow> - 1)
          \<and> list_all (\<lambda>(c, r). r = None) (trace (lastNewlineOffset n) w)
      | Inl e \<Rightarrow> w_dead w \<and> e = EIO
          \<or> (\<exists>t a k. trace (lastNewlineOffset n) w = t @ [(ReadAt a k, Some e)]))"
  using lastNewlineOffset_trace [of n w] lastNewlineOffset_value [OF _ assms]
  by (cases "result (lastNewlineOffset n) w") simp_all

theorem lastNewlineOffset_reference_witness:
  "result (lastNewlineOffset 3) sample_spool = Inr 1"
proof -
  have d: "w_data sample_spool = [CHR ''a'', LF, CHR ''b'']"
    by (simp add: sample_spool_def)
  have "\<exists>v. result (lastNewlineOffset 3) sample_spool = Inr v"
    by (simp add: lastNewlineOffset.simps tailScanChunk_def spool_eval run_Done sample_spool_def sample_world_def)
  then show ?thesis
    using lastNewlineOffset_reference [of 3 sample_spool] by (auto simp: d)
qed

text \<open>
  C20. A repair never loses or invents a record, whatever fails in it: the whole lines of the file stay
  the same. If it succeeds the file is exactly its whole lines, and a fragment it cut off in the
  stronger mode is cut off durably.
\<close>

theorem repairTail_keeps_records:
  "complete_lines (w_data (exec (repairTail wr) w)) = complete_lines (w_data w)
    \<and> (\<forall>u. result (repairTail wr) w = Inr u \<longrightarrow>
        w_data (exec (repairTail wr) w) = whole (w_data w) \<and> terminated (w_data (exec (repairTail wr) w))
        \<and> (sy_mode (wr_syncer wr) = HostLoss \<and> \<not> terminated (w_data w) \<longrightarrow>
            w_durable (exec (repairTail wr) w) = length (whole (w_data w))))"
  using repairTail_repairing [of w wr] repairTail_success [of wr w] by (auto simp: repairing_def)

theorem repairTail_keeps_records_witness:
  "w_data (exec (repairTail sample_writer) sample_spool) = [CHR ''a'', LF]"
proof -
  have "\<exists>u. result (repairTail sample_writer) sample_spool = Inr u"
    by (simp add: spool_defs io_defs spool_eval run_Done sample_facts sample_spool_def sample_world_def sample_host_def
        lastNewlineOffset.simps tailScanChunk_def sample_writer_def cong: if_cong)
  moreover have "whole (w_data sample_spool) = [CHR ''a'', LF]"
    by (simp add: sample_spool_def whole_def complete_lines_def)
  ultimately show ?thesis
    using repairTail_keeps_records [of sample_writer sample_spool] by auto
qed

text \<open>
  C16. Every outcome of an append. A broken writer returns its error and an inadmissible record its
  refusal, both without a single call. Otherwise the file grows by a prefix of the line; the append
  reports success only when all of it is there and, in the stronger mode, durable, and any failure
  breaks the writer. The lock and the earlier contents never change.
\<close>

theorem Append_outcome:
  "case (case wr_broken wr of Some e \<Rightarrow> Some e | None \<Rightarrow> record_error r) of
     Some e \<Rightarrow> result (Append wr r) w = (Some e, wr) \<and> exec (Append wr r) w = w
   | None \<Rightarrow> appended wr r w (result (Append wr r) w) (exec (Append wr r) w)"
  using Append_refused [of wr _ r w] Append_appended [of wr r w] by (simp split: option.split)

text \<open>
  An accepted append on a repaired file adds exactly its record: the whole lines are the old ones
  and then this one, the file ends in a newline, and in the stronger mode all of it is durable.
\<close>

theorem Append_accepted:
  assumes "result (Append wr r) w = (None, wr')" "terminated (w_data w)"
  shows "wr' = wr \<and> complete_lines (w_data (exec (Append wr r) w)) = complete_lines (w_data w) @ [r]
    \<and> terminated (w_data (exec (Append wr r) w))
    \<and> (sy_mode (wr_syncer wr) = HostLoss \<longrightarrow> w_durable (exec (Append wr r) w) = length (w_data (exec (Append wr r) w)))"
proof -
  have b: "wr_broken wr = None" "record_error r = None"
    using assms(1) Append_refused [of wr _ r w] by (cases "wr_broken wr"; cases "record_error r"; simp)+
  obtain k where "w_data (exec (Append wr r) w) = write_line (w_data w) r k" "length r < k" "wr' = wr"
    and "sy_mode (wr_syncer wr) = HostLoss \<longrightarrow> w_durable (exec (Append wr r) w) = length (w_data (exec (Append wr r) w))"
    using Append_appended [OF b, of w] assms(1) by (auto simp: appended_def)
  then show ?thesis
    using write_line_lines [OF b(2) assms(2)] spool_log.clean_write [OF assms(2) record_error_LF [OF b(2)]] by simp
qed

text \<open>The sample spool after its repair.\<close>

definition repaired_spool :: world where
  "repaired_spool = sample_world\<lparr>w_env := (\<lambda>_. Done), w_data := [CHR ''a'', LF], w_durable := 2, w_lock := Some 1\<rparr>"

lemma sample_append:
  "record_error r = None \<Longrightarrow> result (Append sample_writer r) repaired_spool = (None, sample_writer)"
  by (simp add: Append_def record_error_def sample_writer_def io_defs spool_eval run_Done sample_facts
      repaired_spool_def sample_world_def sample_host_def split: if_split_asm)

lemma sample_record: "record_error ''[]'' = None"
proof -
  have "value_ok (JArray [])" by (simp add: value_ok_def MaxDepth_def)
  moreover from this have "canon (JArray []) = ''[]''"
    using appendCanonical_ok [of "JArray []" "[]"] by (simp add: canon_eval)
  ultimately show ?thesis using canonical_admissible by metis
qed

theorem Append_accepted_witness:
  "complete_lines (w_data (exec (Append sample_writer ''[]'') repaired_spool)) = [''a'', ''[]'']"
proof -
  have "terminated (w_data repaired_spool)" "complete_lines (w_data repaired_spool) = [''a'']"
    by (simp_all add: repaired_spool_def terminated_def complete_lines_def)
  then show ?thesis
    using Append_accepted [OF sample_append [OF sample_record]] by simp
qed

text \<open>
  C17. A failed write or sync ends the stream: whatever is appended later through that writer, in
  whatever state of the system, returns the same error without a single call.
\<close>

theorem Append_broken_stops:
  assumes "result (Append wr r) w = (Some e, wr')" "e \<noteq> EmptyRecord" "\<forall>b. e \<noteq> EmbeddedLineBreak b"
  shows "result (Append wr' r') v = (Some e, wr') \<and> exec (Append wr' r') v = v"
proof -
  have "wr_broken wr' = Some e"
  proof (cases "wr_broken wr")
    case None
    have ok: "record_error r = None"
      using assms Append_refused [of wr _ r w] None
      by (cases "record_error r") (auto simp: record_error_def split: if_split_asm)
    show ?thesis using Append_appended [OF None ok, of w] assms(1) by (auto simp: appended_def)
  next
    case (Some e')
    then show ?thesis using assms(1) Append_refused [of wr e' r w] by simp
  qed
  then show ?thesis using Append_refused by blast
qed

theorem Append_broken_stops_witness:
  "\<exists>wr'. result (Append wr' ''c'') repaired_spool = (Some (BrokenWrite ENOSPC), wr') \<and> wr_lock wr' = 1"
proof -
  let ?w = "repaired_spool\<lparr>w_env := (\<lambda>_. Fail ENOSPC 1)\<rparr>"
  let ?wr = "sample_writer\<lparr>wr_broken := Some (BrokenWrite ENOSPC)\<rparr>"
  have "result (Append sample_writer ''[]'') ?w = (Some (BrokenWrite ENOSPC), ?wr)"
    using sample_record by (simp add: Append_def record_error_def sample_writer_def spool_eval run_call_def repaired_spool_def sample_world_def
        split: if_split_asm)
  from Append_broken_stops [OF this, of "''c''" repaired_spool] show ?thesis
    by (auto simp: sample_writer_def)
qed

text \<open>
  C15. The canonical text of a decoded value is always admissible: an unbroken writer never refuses it.
  If the append is accepted on a repaired file, the new last line of the file decodes strictly to the
  same JSON value; if it fails, the writer is broken.
\<close>

theorem Append_canonical:
  assumes "decodeStrict line = Inr v" "appendCanonical [] v = Inr buf"
    and "wr_broken wr = None" "terminated (w_data w)"
  shows "case result (Append wr buf) w of
      (None, _) \<Rightarrow> \<exists>u. decodeStrict (last (complete_lines (w_data (exec (Append wr buf) w)))) = Inr u \<and> jeq u v
    | (Some e, wr') \<Rightarrow> wr_broken wr' = Some e"
proof -
  have v: "value_ok v" using assms(1) by (rule decodeStrict_ok)
  then have buf: "buf = canon v" using assms(2) by (simp add: appendCanonical_ok)
  have ok: "record_error buf = None" unfolding buf by (rule canonical_admissible [OF v])
  have a: "appended wr buf w (result (Append wr buf) w) (exec (Append wr buf) w)"
    by (rule Append_appended [OF assms(3) ok])
  have "\<exists>u. decodeStrict buf = Inr u \<and> jeq u v"
    using v decodeStrict_canon [OF v] by (auto simp: buf value_ok_def intro: jeq_normal_form)
  then show ?thesis
    using a write_line_lines [OF ok assms(4)]
    by (auto simp: appended_def split: prod.split option.split)
qed

theorem Append_canonical_witness:
  "\<exists>u. decodeStrict (last (complete_lines (w_data (exec (Append sample_writer ''[]'') repaired_spool)))) = Inr u
    \<and> jeq u (JArray [])"
proof -
  have d: "decodeStrict ''[]'' = Inr (JArray [])" by (simp add: json_eval)
  have c: "appendCanonical [] (JArray []) = Inr ''[]''" by (simp add: canon_eval)
  have t: "terminated (w_data repaired_spool)" by (simp add: repaired_spool_def terminated_def)
  have b: "wr_broken sample_writer = None" by (simp add: sample_writer_def)
  have "result (Append sample_writer ''[]'') repaired_spool = (None, sample_writer)"
    by (rule sample_append [OF sample_record])
  then show ?thesis
    using Append_canonical [OF d c b t] by simp
qed

text \<open>
  C13. A successful open, from any state of the disk where the lock is free: the writer is unbroken and
  carries the given syncer, the lock is held through its own new descriptor, the file is exactly the
  whole lines it had, and in the stronger mode the entries of the events directory and of the file
  are durable.
\<close>

theorem Open_success:
  assumes "result (Open root source s) w = Inr wr" "w_lock w = None"
    and "h_root (w_host w) = root" "h_events_dir (w_host w) = eventsDir root"
  defines "w' \<equiv> exec (Open root source s) w"
  shows "wr_source wr = source \<and> wr_syncer wr = s \<and> wr_broken wr = None
    \<and> w_lock w' = Some (wr_lock wr) \<and> length (w_log w) \<le> wr_lock wr \<and> wr_lock wr < length (w_log w')
    \<and> w_data w' = whole (w_data w) \<and> complete_lines (w_data w') = complete_lines (w_data w)
    \<and> (sy_mode s = HostLoss \<longrightarrow> w_dir_entry_durable w' \<and> w_file_entry_durable w')"
proof -
  have "opened root source s w (Inr wr) w'"
    using Open_opened [OF assms(2), of root source s] assms(1) by (simp add: w'_def)
  then have o: "wr = \<lparr>wr_source = source, wr_lock = wr_lock wr, wr_syncer = s, wr_broken = None\<rparr>"
    "w_lock w' = Some (wr_lock wr)" "length (w_log w) \<le> wr_lock wr" "wr_lock wr < length (w_log w')"
    "w_data w' = whole (w_data w)" "sy_mode s = HostLoss \<longrightarrow> entries_durable w'"
    using assms(3,4) by (simp_all add: opened_def)
  from o(1) have "wr_source wr = source" "wr_syncer wr = s" "wr_broken wr = None"
    by (metis writer.select_convs)+
  then show ?thesis using o(2-6) by (simp add: entries_durable_def)
qed

theorem Open_success_witness:
  "complete_lines (w_data (exec (Open ''/srv'' ''ci'' sample_syncer) sample_spool)) = [''a'']"
proof -
  have "w_lock sample_spool = None" "h_root (w_host sample_spool) = ''/srv''"
    "h_events_dir (w_host sample_spool) = eventsDir ''/srv''" "complete_lines (w_data sample_spool) = [''a'']"
    by (simp_all add: sample_spool_def sample_world_def sample_host_def sample_eventsDir complete_lines_def)
  then show ?thesis using Open_success [OF sample_open] by simp
qed

text \<open>
  C18. A failed open leaves the spool usable: the whole lines of the file are what they were and as
  durable, and the lock is free again, unless the process died in the call.
\<close>

theorem Open_failure:
  assumes "result (Open root source s) w = Inl e" "w_lock w = None"
  defines "w' \<equiv> exec (Open root source s) w"
  shows "complete_lines (w_data w') = complete_lines (w_data w)
    \<and> min (w_durable w) (length (whole (w_data w))) \<le> w_durable w'
    \<and> (w_lock w' = None \<or> w_dead w')"
  using Open_opened [OF assms(2), of root source s] assms(1) by (auto simp: w'_def opened_def repairing_def)

theorem Open_failure_witness:
  "complete_lines (w_data (exec (Open ''/srv'' ''ci'' sample_syncer) failing_spool)) = [''a'']
    \<and> w_lock (exec (Open ''/srv'' ''ci'' sample_syncer) failing_spool) = None"
proof -
  have "w_lock failing_spool = None" "complete_lines (w_data failing_spool) = [''a'']"
    by (simp_all add: failing_spool_def sample_spool_def sample_world_def complete_lines_def)
  then show ?thesis
    using Open_failure [OF failing_open(1)] failing_open(2) by simp
qed

text \<open>
  C19. At most one writer: while the lock is held through an older descriptor every open fails, and it
  leaves the contents of the file and the lock as they are.
\<close>

theorem Open_excludes:
  assumes "w_lock w = Some fd" "fd < length (w_log w)"
  shows "isl (result (Open root source s) w) \<and> w_data (exec (Open root source s) w) = w_data w
    \<and> w_lock (exec (Open root source s) w) = Some fd"
  using Open_locked [OF assms, of root source s] assms(1) by (auto dest: quiet_data quiet_lock)

theorem Open_excludes_witness:
  "isl (result (Open ''/srv'' ''ci'' sample_syncer) (sample_spool\<lparr>w_lock := Some 0, w_log := [(Getwd, None)]\<rparr>))"
  using Open_excludes [of "sample_spool\<lparr>w_lock := Some 0, w_log := [(Getwd, None)]\<rparr>" 0 "''/srv''" "''ci''" sample_syncer]
  by simp

end
