(* ===== verification/Spool_Progress.thy ===== *)
theory Spool_Progress
  imports Spool_Writer
begin

text \<open>
  Progress: in an environment where the calls complete, the spool can be opened and records are
  accepted. This is what excludes a writer that is correct because it always fails.
\<close>

section \<open>Programs that succeed\<close>

text \<open>\<open>succeeds P m\<close>: from \<open>P\<close>, the program returns a value and ends in \<open>P\<close> again.\<close>

definition succeeds :: "(world \<Rightarrow> bool) \<Rightarrow> ('e + 'a) io \<Rightarrow> bool" where
  "succeeds P m = hoare P m (\<lambda>r w. (\<exists>b. r = Inr b) \<and> P w)"

definition completes :: "(world \<Rightarrow> bool) \<Rightarrow> errno option io \<Rightarrow> bool" where
  "completes P m = hoare P m (\<lambda>r w. r = None \<and> P w)"

named_theorems progress \<open>composition rules for programs that succeed\<close>

lemma succeeds_return [progress]: "succeeds P (State_Monad.return (Inr b))"
  by (simp add: succeeds_def hoare_def)

lemma succeeds_get [progress]: "(\<And>w. P w \<Longrightarrow> succeeds P (f w)) \<Longrightarrow> succeeds P (State_Monad.bind State_Monad.get f)"
  by (simp add: succeeds_def hoare_def run_simps)

lemma succeeds_try_call [progress]: "completes P (perform c) \<Longrightarrow> succeeds P k \<Longrightarrow> succeeds P (try_call c wrap k)"
  by (simp add: succeeds_def completes_def hoare_def try_call_def run_simps)

lemma succeeds_try_io [progress]: "succeeds P m \<Longrightarrow> (\<And>b. succeeds P (k b)) \<Longrightarrow> succeeds P (try_io m wrap k)"
  unfolding succeeds_def hoare_def try_io_def run_simps by (metis sum.case(2))

lemma succeeds_err_io [progress]: "completes P m \<Longrightarrow> succeeds P k \<Longrightarrow> succeeds P (err_io m wrap k)"
  by (simp add: succeeds_def completes_def hoare_def err_io_def run_simps)

lemma succeeds_deferred [progress]: "succeeds P m \<Longrightarrow> completes P d \<Longrightarrow> succeeds P (deferred m d)"
  by (simp add: succeeds_def completes_def hoare_def deferred_def run_simps)

lemma succeeds_if [progress]: "(b \<Longrightarrow> succeeds P m) \<Longrightarrow> (\<not> b \<Longrightarrow> succeeds P n) \<Longrightarrow> succeeds P (if b then m else n)"
  by simp

lemma succeeds_bind_Inr:
  "succeeds P m \<Longrightarrow> (\<And>b. succeeds P (g b)) \<Longrightarrow> succeeds P (State_Monad.bind m (\<lambda>r. case r of Inl e \<Rightarrow> f e | Inr b \<Rightarrow> g b))"
  unfolding succeeds_def hoare_def run_simps by (metis sum.case(2))

text \<open>The rest of the run completes every call; the state files are regular and on the probed device.\<close>

definition calm :: "world \<Rightarrow> bool" where
  "calm w \<longleftrightarrow> \<not> w_dead w \<and> (\<forall>n. length (w_log w) \<le> n \<longrightarrow> w_env w n = Done)"

definition ready :: "syncer \<Rightarrow> world \<Rightarrow> bool" where
  "ready s w \<longleftrightarrow>
    calm w \<and> Verified s \<and> (\<forall>f. h_regular (w_host w) f) \<and> (\<forall>f. h_file_device (w_host w) f = sy_device s)"

lemma calm_call:
  assumes "ready s w" "refused c w = None"
  shows "result (perform c) w = None" "ready s (exec (perform c) w)" "exec (perform c) w = logged c None (effect c w)"
proof -
  have "w_env w (length (w_log w)) = Done" "\<not> w_dead w" using assms(1) by (simp_all add: ready_def calm_def)
  then have r: "run_call c w = (None, logged c None (effect c w))" by (simp add: run_call_def assms(2))
  then show "result (perform c) w = None" and e: "exec (perform c) w = logged c None (effect c w)"
    by (simp_all add: run_simps)
  have "\<not> w_dead (effect c w)"
    using assms(1)
    by (cases c) (auto simp: effect_def sync_effect_def close_effect_def ready_def calm_def split: handle.splits)
  moreover have "w_env (effect c w) = w_env w"
    using steady_effect [of w c] by (simp add: steady_def)
  ultimately show "ready s (exec (perform c) w)"
    using assms(1) unfolding e by (auto simp: ready_def calm_def logged_def)
qed

text \<open>The states with the lock free, and the states with it held.\<close>

definition ready_free :: "syncer \<Rightarrow> world \<Rightarrow> bool" where
  "ready_free s w \<longleftrightarrow> ready s w \<and> w_lock w = None"

definition takes_lock :: "syscall \<Rightarrow> bool" where
  "takes_lock c = (case c of Flock fd \<Rightarrow> True | _ \<Rightarrow> False)"

lemma takes_lock_simps [simp]: "harmless c \<Longrightarrow> \<not> takes_lock c" "\<not> takes_lock (Truncate n)" "\<not> takes_lock (Write f b)"
  by (cases c) (simp_all add: takes_lock_def)

lemma refused_not_flock: "\<not> takes_lock c \<Longrightarrow> refused c w = None"
  by (cases c) (simp_all add: refused_def takes_lock_def)

lemma completes_ready: "\<not> takes_lock c \<Longrightarrow> completes (ready s) (perform c)"
  using calm_call refused_not_flock by (simp add: completes_def hoare_def)

lemma completes_ready_free: "harmless c \<Longrightarrow> completes (ready_free s) (perform c)"
proof -
  assume h: "harmless c"
  have "result (perform c) w = None \<and> ready s (exec (perform c) w) \<and> w_lock (exec (perform c) w) = w_lock w"
    if "ready s w" for w
    using calm_call(1,2) [OF that refused_not_flock] quiet_lock [OF quiet_perform [OF h]] h by simp
  then show ?thesis
    by (simp add: completes_def hoare_def ready_free_def)
qed

lemma succeeds_programs:
  assumes "\<And>c. harmless c \<Longrightarrow> completes P (perform c)" "\<And>w. P w \<Longrightarrow> ready s w" "Verified s"
  shows "completes P (syncAt m f)" "succeeds P (VerifyFile s f)" "succeeds P (SyncFile s f)"
    and "succeeds P (SyncDir s dir)" "succeeds P (verifyState f s)" "succeeds P (verifyEvents root s)"
    and "succeeds P (openEventsFile root source s)" "succeeds P (lastNewlineOffset n)"
proof -
  show sync: "completes P (syncAt m f)" for m f
    using assms(1) [OF harmless_full_sync] assms(1) [of "Fsync f"]
    by (simp add: completes_def hoare_def run_syncAt mode_sync_def)
  show verify: "succeeds P (VerifyFile s f)" for f
    using assms(3) unfolding VerifyFile_def
    by (simp, intro progress assms(1) harmless_simps) (use assms(2) in \<open>auto simp: ready_def succeeds_return\<close>)
  show "succeeds P (SyncFile s f)" for f
    using assms(3) unfolding SyncFile_def by (simp, intro progress sync)
  show dir: "succeeds P (SyncDir s dir)" for dir
    using assms(3) unfolding SyncDir_def by (simp, intro progress assms(1) harmless_simps verify sync)
  show state: "succeeds P (verifyState f s)" for f
    unfolding verifyState_def
    by (intro progress assms(1) harmless_simps verify) (use assms(2) in \<open>auto simp: ready_def\<close>)
  show events: "succeeds P (verifyEvents root s)"
    unfolding verifyEvents_def by (intro succeeds_bind_Inr state dir progress)
  show "succeeds P (openEventsFile root source s)"
    unfolding openEventsFile_def by (intro progress assms(1) harmless_simps dir events)
  show "succeeds P (lastNewlineOffset n)"
  proof (induction n rule: less_induct)
    case (less n)
    show ?case
    proof (cases "n = 0")
      case True
      then show ?thesis by (simp add: lastNewlineOffset.simps succeeds_return)
    next
      case False
      then have "succeeds P (lastNewlineOffset (n - tailScanChunk))"
        by (intro less) (simp add: tailScanChunk_def)
      then show ?thesis
        by (subst lastNewlineOffset.simps) (intro progress assms(1) harmless_simps; simp add: succeeds_return split: option.split)
    qed
  qed
qed

lemma repairTail_succeeds:
  assumes "Verified s"
  shows "succeeds (ready s) (repairTail \<lparr>wr_source = source, wr_lock = fd, wr_syncer = s, wr_broken = None\<rparr>)"
proof -
  note p = succeeds_programs [OF completes_ready [OF takes_lock_simps(1)] _ assms]
  show ?thesis
    unfolding repairTail_def truncateTail_def Let_def
    by (intro progress completes_ready) (simp_all add: p progress completes_ready)
qed

lemma repairOrClose_succeeds:
  assumes "Verified s"
  shows "succeeds (ready s) (repairOrClose \<lparr>wr_source = source, wr_lock = fd, wr_syncer = s, wr_broken = None\<rparr>)"
  unfolding repairOrClose_def by (intro succeeds_bind_Inr repairTail_succeeds assms progress)

lemma openLocked_succeeds: "Verified s \<Longrightarrow> succeeds (ready s) (openLocked root source s fd)"
  unfolding openLocked_def
  by (intro succeeds_bind_Inr succeeds_programs completes_ready takes_lock_simps repairOrClose_succeeds)

lemma lockFile_succeeds:
  assumes "Verified s"
  shows "hoare (ready_free s) (lockFile fd s) (\<lambda>r w. (\<exists>b. r = Inr b) \<and> ready s w)"
proof -
  have v: "succeeds (ready_free s) (verifyState (LockFile fd) s)"
    by (intro succeeds_programs completes_ready_free assms) (auto simp: ready_free_def)
  have f: "result (perform (Flock fd)) w = None" "ready s (exec (perform (Flock fd)) w)" if "ready_free s w" for w
    using calm_call [of s w "Flock fd"] that by (simp_all add: ready_free_def refused_def)
  show ?thesis
  proof (rule hoareI)
    fix w assume "ready_free s w"
    then obtain b where b: "result (verifyState (LockFile fd) s) w = Inr b" "ready_free s (exec (verifyState (LockFile fd) s) w)"
      using v by (auto simp: succeeds_def hoare_def)
    then show "(\<exists>b. result (lockFile fd s) w = Inr b) \<and> ready s (exec (lockFile fd s) w)"
      using f [OF b(2)] by (simp add: lockFile_def exec_bind result_bind)
  qed
qed

lemma acquire_succeeds:
  assumes "Verified s"
  shows "hoare (ready_free s) (acquireWriterLock root source s) (\<lambda>r w. (\<exists>b. r = Inr b) \<and> ready s w)"
  unfolding acquireWriterLock_def
proof (rule hoare_try_call [OF _ _ hoare_get])
  let ?open = "OpenLock (writerLockPath root source)"
  note c = completes_ready_free [unfolded completes_def]
  show "hoare (ready_free s) (perform (MkdirAll (writerLockDir root))) (\<lambda>r w. r = None \<longrightarrow> ready_free s w)"
    by (rule hoare_conseq [OF c [of "MkdirAll (writerLockDir root)" s]]) simp_all
  show "hoare (ready_free s) (perform (MkdirAll (writerLockDir root)))
      (\<lambda>r w. \<forall>e. r = Some e \<longrightarrow> (\<exists>b. Inl (LockDirFailed e) = Inr b) \<and> ready s w)"
    by (rule hoare_conseq [OF c [of "MkdirAll (writerLockDir root)" s]]) simp_all
  fix w assume w: "ready_free s w"
  have "hoare (ready_free s) (try_call ?open LockOpenFailed (lockFile (length (w_log w)) s)) (\<lambda>r w. (\<exists>b. r = Inr b) \<and> ready s w)"
    by (rule hoare_try_call [OF _ _ lockFile_succeeds [OF assms]]; rule hoare_conseq [OF c [of ?open s]]) simp_all
  then show "hoare (\<lambda>v. v = w) (try_call ?open LockOpenFailed (lockFile (length (w_log w)) s)) (\<lambda>r w. (\<exists>b. r = Inr b) \<and> ready s w)"
    by (rule hoare_conseq) (simp_all add: w)
qed

text \<open>
  Opening succeeds when the source is valid, the syncer was probed on this very root, the lock is free
  and the calls complete.
\<close>

lemma Open_succeeds:
  assumes "validate_slug ''source'' source = None" "ready s w" "w_lock w = None"
    and "is_rooted root" "path_clean root = sy_dir s"
  shows "\<exists>wr. result (Open root source s) w = Inr wr \<and> ready s (exec (Open root source s) w)"
proof -
  have v: "Verified s" using assms(2) by (simp add: ready_def)
  have c: "checkSyncerRoot root s = State_Monad.return (Inr ())"
    using v assms(4,5) by (simp add: checkSyncerRoot_def file_abs_def try_io_def State_Monad.bind_def State_Monad.return_def)
  have "ready_free s w" using assms(2,3) by (simp add: ready_free_def)
  then obtain fd where fd: "result (acquireWriterLock root source s) w = Inr fd" "ready s (exec (acquireWriterLock root source s) w)"
    using hoareD [OF acquire_succeeds [OF v]] by blast
  obtain wr where "result (openLocked root source s fd) (exec (acquireWriterLock root source s) w) = Inr wr"
    "ready s (exec (openLocked root source s fd) (exec (acquireWriterLock root source s) w))"
    using hoareD [OF openLocked_succeeds [OF v, unfolded succeeds_def] fd(2)] by blast
  then show ?thesis
    using fd by (simp add: Open_def assms(1) c try_io_def run_simps)
qed

lemma Append_succeeds:
  assumes "wr_broken wr = None" "record_error r = None" "ready (wr_syncer wr) w"
  shows "result (Append wr r) w = (None, wr) \<and> ready (wr_syncer wr) (exec (Append wr r) w)"
proof -
  let ?put = "Write EventsFile (r @ [LF])"
  have v: "Verified (wr_syncer wr)" using assms(3) by (simp add: ready_def)
  have w: "result (perform ?put) w = None" "ready (wr_syncer wr) (exec (perform ?put) w)"
    using calm_call [OF assms(3) refused_not_flock [of ?put]] by simp_all
  obtain b where "result (SyncFile (wr_syncer wr) EventsFile) (exec (perform ?put) w) = Inr b"
    "ready (wr_syncer wr) (exec (SyncFile (wr_syncer wr) EventsFile) (exec (perform ?put) w))"
    using hoareD [OF succeeds_programs(3) [OF completes_ready [OF takes_lock_simps(1)] _ v, unfolded succeeds_def] w(2)] by blast
  then show ?thesis
    using assms(1,2) w by (simp add: Append_def record_error_def run_simps split: if_split_asm)
qed

section \<open>Properties\<close>

text \<open>
  C14. The writer makes progress: if the source is valid, the syncer was probed on this root, the lock is
  free and the remaining calls complete, then opening succeeds, whatever the file holds, and the
  writer accepts any admissible record.
\<close>

theorem Open_then_Append_succeeds:
  assumes "validate_slug ''source'' source = None" "ready s w" "w_lock w = None"
    and "is_rooted root" "path_clean root = sy_dir s"
  shows "\<exists>wr. result (Open root source s) w = Inr wr
    \<and> (\<forall>r. record_error r = None \<longrightarrow> result (Append wr r) (exec (Open root source s) w) = (None, wr))"
proof -
  obtain wr where wr: "result (Open root source s) w = Inr wr" "ready s (exec (Open root source s) w)"
    using Open_succeeds [OF assms] by blast
  then have "opened root source s w (Inr wr) (exec (Open root source s) w)"
    using Open_opened [OF assms(3), of root source s] by simp
  then have "wr = \<lparr>wr_source = source, wr_lock = wr_lock wr, wr_syncer = s, wr_broken = None\<rparr>"
    by (simp add: opened_def)
  then have "wr_syncer wr = s" "wr_broken wr = None"
    by (metis writer.select_convs)+
  then show ?thesis
    using wr Append_succeeds by blast
qed

lemma sample_ready: "ready sample_syncer sample_spool" "w_lock sample_spool = None"
  by (simp_all add: ready_def calm_def sample_sees sample_spool_def sample_world_def sample_host_def)

lemma sample_root: "is_rooted ''/srv''" "path_clean ''/srv'' = sy_dir sample_syncer"
  by (simp_all add: is_rooted_def path_clean_def clean_parts_def clean_step_def sample_sees)

theorem Open_then_Append_succeeds_witness:
  "\<exists>wr. result (Open ''/srv'' ''ci'' sample_syncer) sample_spool = Inr wr
    \<and> result (Append wr ''[]'') (exec (Open ''/srv'' ''ci'' sample_syncer) sample_spool) = (None, wr)"
  using Open_then_Append_succeeds [OF sample_slug sample_ready sample_root] sample_record by blast

end
