(* ===== verification/Spool_System.thy ===== *)
theory Spool_System
  imports Spool_Progress
begin

text \<open>
  The spool of one source as its users and its faults see it: processes open it, append through it,
  close it and crash, in any order, and the host may lose power. Every operation is the model of the
  code in \<^theory_text>\<open>Spool_Writer\<close>; this theory adds what happens between operations, and proves that no
  interleaving loses an accepted record.
\<close>

section \<open>States and steps\<close>

record spool_sys =
  ss_world :: world
  ss_writers :: "writer list"
  ss_accepted :: "bytes list"
  ss_attempted :: "bytes list"

datatype spool_event =
    EvOpen
  | EvAppend nat bytes
  | EvClose nat
  | EvCrash nat
  | EvHostLoss bool bytes

text \<open>When a process is gone, the kernel closes its descriptors, which releases its lock.\<close>

definition reap :: "(nat \<Rightarrow> bool) \<Rightarrow> world \<Rightarrow> world" where
  "reap mine w =
    w\<lparr>w_dead := False,
      w_lock := (case w_lock w of None \<Rightarrow> None | Some fd \<Rightarrow> if mine fd then None else Some fd)\<rparr>"

definition drop_nth :: "nat \<Rightarrow> 'a list \<Rightarrow> 'a list" where
  "drop_nth i xs = take i xs @ drop (Suc i) xs"

text \<open>
  A host loss keeps what is on stable storage. What follows in the file is arbitrary; if an entry that
  leads to the file was not durable, the whole file may be gone (\<open>keep\<close> says whether it survives).
\<close>

definition host_loss :: "bool \<Rightarrow> bytes \<Rightarrow> world \<Rightarrow> world" where
  "host_loss keep junk w =
    (if keep \<or> entries_durable w
     then w\<lparr>w_dead := False, w_lock := None, w_data := take (w_durable w) (w_data w) @ junk\<rparr>
     else w\<lparr>w_dead := False, w_lock := None, w_data := [], w_durable := 0, w_file_exists := False,
            w_dir_exists := w_dir_entry_durable w, w_file_entry_durable := False\<rparr>)"

definition open_step :: "bytes \<Rightarrow> bytes \<Rightarrow> syncer \<Rightarrow> spool_sys \<Rightarrow> spool_sys" where
  "open_step root source s st =
    (let w = ss_world st; w' = exec (Open root source s) w in
     if w_dead w' then st\<lparr>ss_world := reap (\<lambda>fd. length (w_log w) \<le> fd) w'\<rparr>
     else (case result (Open root source s) w of
             Inl _ \<Rightarrow> st\<lparr>ss_world := w'\<rparr>
           | Inr wr \<Rightarrow> st\<lparr>ss_world := w', ss_writers := ss_writers st @ [wr]\<rparr>))"

definition append_step :: "nat \<Rightarrow> bytes \<Rightarrow> spool_sys \<Rightarrow> spool_sys" where
  "append_step i r st =
    (let w = ss_world st; wr = ss_writers st ! i; w' = exec (Append wr r) w in
     if w_dead w'
     then st\<lparr>ss_world := reap (\<lambda>fd. fd = wr_lock wr) w', ss_writers := drop_nth i (ss_writers st),
             ss_attempted := ss_attempted st @ [r]\<rparr>
     else (case result (Append wr r) w of
             (e, wr') \<Rightarrow>
               st\<lparr>ss_world := w', ss_writers := (ss_writers st)[i := wr'],
                  ss_accepted := (if e = None then ss_accepted st @ [r] else ss_accepted st),
                  ss_attempted := ss_attempted st @ [r]\<rparr>))"

definition close_step :: "nat \<Rightarrow> spool_sys \<Rightarrow> spool_sys" where
  "close_step i st =
    (let wr = ss_writers st ! i; w' = exec (CloseWriter wr) (ss_world st) in
     st\<lparr>ss_world := (if w_dead w' then reap (\<lambda>fd. fd = wr_lock wr) w' else w'),
        ss_writers := drop_nth i (ss_writers st)\<rparr>)"

definition crash_step :: "nat \<Rightarrow> spool_sys \<Rightarrow> spool_sys" where
  "crash_step i st =
    st\<lparr>ss_world := reap (\<lambda>fd. fd = wr_lock (ss_writers st ! i)) (ss_world st), ss_writers := drop_nth i (ss_writers st)\<rparr>"

fun sys_step :: "bytes \<Rightarrow> bytes \<Rightarrow> syncer \<Rightarrow> spool_event \<Rightarrow> spool_sys \<Rightarrow> spool_sys" where
  "sys_step root source s EvOpen st = open_step root source s st"
| "sys_step root source s (EvAppend i r) st = (if i < length (ss_writers st) then append_step i r st else st)"
| "sys_step root source s (EvClose i) st = (if i < length (ss_writers st) then close_step i st else st)"
| "sys_step root source s (EvCrash i) st = (if i < length (ss_writers st) then crash_step i st else st)"
| "sys_step root source s (EvHostLoss keep junk) st =
    st\<lparr>ss_world := host_loss keep junk (ss_world st), ss_writers := []\<rparr>"

definition fresh_start :: "bytes \<Rightarrow> world \<Rightarrow> bool" where
  "fresh_start root w \<longleftrightarrow>
    \<not> w_dead w \<and> w_lock w = None \<and> w_durable w \<le> length (w_data w)
    \<and> h_root (w_host w) = root \<and> h_events_dir (w_host w) = eventsDir root"

definition start_sys :: "world \<Rightarrow> spool_sys" where
  "start_sys w = \<lparr>ss_world = w, ss_writers = [], ss_accepted = [], ss_attempted = []\<rparr>"

text \<open>The states a spool can reach; \<open>lossy\<close> says whether host losses are among the faults.\<close>

inductive spool_reach :: "bool \<Rightarrow> bytes \<Rightarrow> bytes \<Rightarrow> syncer \<Rightarrow> world \<Rightarrow> spool_sys \<Rightarrow> bool"
  for lossy root source s w0 where
  reach_start: "fresh_start root w0 \<Longrightarrow> spool_reach lossy root source s w0 (start_sys w0)"
| reach_step: "spool_reach lossy root source s w0 st \<Longrightarrow> (\<And>keep junk. ev = EvHostLoss keep junk \<Longrightarrow> lossy)
    \<Longrightarrow> spool_reach lossy root source s w0 (sys_step root source s ev st)"

section \<open>The file between operations\<close>

text \<open>
  A terminated prefix of the file holds every accepted record, in order; if power can be lost, that
  prefix is on stable storage and reachable there.
\<close>

definition kept :: "bool \<Rightarrow> bytes list \<Rightarrow> world \<Rightarrow> bool" where
  "kept lossy acc w \<longleftrightarrow>
    w_durable w \<le> length (w_data w)
    \<and> (\<exists>p q. w_data w = p @ q \<and> terminated p \<and> subseq acc (complete_lines p)
      \<and> (lossy \<longrightarrow> length p \<le> w_durable w \<and> (acc \<noteq> [] \<longrightarrow> entries_durable w)))"

lemma keptE:
  assumes "kept lossy acc w"
  obtains p q where "w_durable w \<le> length (w_data w)" "w_data w = p @ q" "terminated p" "subseq acc (complete_lines p)"
    "lossy \<Longrightarrow> length p \<le> w_durable w" "lossy \<Longrightarrow> acc \<noteq> [] \<Longrightarrow> entries_durable w"
  using assms unfolding kept_def by blast

lemma keptI:
  assumes "w_durable w \<le> length (w_data w)" "w_data w = p @ q" "terminated p" "subseq acc (complete_lines p)"
    "lossy \<Longrightarrow> length p \<le> w_durable w" "lossy \<Longrightarrow> acc \<noteq> [] \<Longrightarrow> entries_durable w"
  shows "kept lossy acc w"
  using assms by (auto simp: kept_def)

lemma kept_same:
  assumes "kept lossy acc w" "w_data w' = w_data w" "w_durable w' = w_durable w" "entries_durable w' = entries_durable w"
  shows "kept lossy acc w'"
  using assms by (simp add: kept_def)

lemma kept_lines: "kept lossy acc w \<Longrightarrow> subseq acc (complete_lines (w_data w))"
  by (elim keptE) (simp add: lines_terminated_append subseq_rev_drop_many)

lemma kept_repairing:
  assumes "kept lossy acc w" "repairing w w'"
  shows "kept lossy acc w'"
  using assms(1)
proof (rule keptE)
  fix p q
  assume p: "w_data w = p @ q" "terminated p" "subseq acc (complete_lines p)" and d: "w_durable w \<le> length (w_data w)"
    and l: "lossy \<Longrightarrow> length p \<le> w_durable w" and e: "lossy \<Longrightarrow> acc \<noteq> [] \<Longrightarrow> entries_durable w"
  have wh: "whole (w_data w) = p @ whole q"
    using p by (simp add: whole_terminated_append)
  obtain q' where q': "w_data w' = p @ q'"
    using assms(2) p(1) wh by (auto simp: repairing_def)
  have b: "w_durable w' \<le> length (w_data w')" "min (w_durable w) (length (whole (w_data w))) \<le> w_durable w'" "steady w w'"
    using assms(2) d by (simp_all add: repairing_def)
  show ?thesis
  proof (rule keptI [OF b(1) q' p(2,3)])
    show "length p \<le> w_durable w'" if lossy
      using l [OF that] b(2) by (simp add: wh)
    show "entries_durable w'" if lossy "acc \<noteq> []"
      using e [OF that] b(3) by (rule steady_entries [rotated])
  qed
qed

lemma kept_quiet: "kept lossy acc w \<Longrightarrow> quiet w w' \<Longrightarrow> kept lossy acc w'"
  by (rule kept_repairing [OF _ quiet_repairing])

text \<open>Whatever an append leaves behind, what was kept stays kept.\<close>

lemma kept_appended:
  assumes "kept lossy acc w" "appended wr r w res w'"
  shows "kept lossy acc w'"
  using assms(1)
proof (rule keptE)
  fix p q
  assume p: "w_data w = p @ q" "terminated p" "subseq acc (complete_lines p)" and d: "w_durable w \<le> length (w_data w)"
    and l: "lossy \<Longrightarrow> length p \<le> w_durable w" and e: "lossy \<Longrightarrow> acc \<noteq> [] \<Longrightarrow> entries_durable w"
  obtain q' where q': "w_data w' = w_data w @ q'" and s: "steady w w'"
    and dur: "w_durable w' = w_durable w \<or> w_durable w' = length (w_data w')"
    using assms(2) by (auto simp: appended_def write_line_def)
  show ?thesis
  proof (rule keptI [OF _ _ p(2,3)])
    show "w_durable w' \<le> length (w_data w')" using d dur q' by auto
    show "w_data w' = p @ (q @ q')" using p(1) q' by simp
    show "length p \<le> w_durable w'" if lossy
      using l [OF that] dur q' p(1) by auto
    show "entries_durable w'" if lossy "acc \<noteq> []"
      using e [OF that] s by (rule steady_entries [rotated])
  qed
qed

text \<open>An accepted append on a terminated file keeps its own record as well.\<close>

lemma kept_accepted:
  assumes "kept lossy acc w" "appended wr r w (None, wr') w'" "record_error r = None" "terminated (w_data w)"
    and "lossy \<Longrightarrow> sy_mode (wr_syncer wr) = HostLoss \<and> entries_durable w"
  shows "kept lossy (acc @ [r]) w'"
proof -
  obtain k where k: "w_data w' = write_line (w_data w) r k" "length r < k" "steady w w'"
    "sy_mode (wr_syncer wr) = HostLoss \<Longrightarrow> w_durable w' = length (w_data w')"
    using assms(2) by (auto simp: appended_def)
  have lines: "complete_lines (w_data w') = complete_lines (w_data w) @ [r]" "terminated (w_data w')"
    using write_line_lines [OF assms(3,4), of k] spool_log.clean_write [OF assms(4) record_error_LF [OF assms(3)] k(2)] k(1,2)
    by simp_all
  have bound: "w_durable w' \<le> length (w_data w')"
    using kept_appended [OF assms(1,2)] by (simp add: kept_def)
  show ?thesis
  proof (rule keptI [OF bound])
    show "w_data w' = w_data w' @ []" by simp
    show "terminated (w_data w')" by (fact lines)
    show "subseq (acc @ [r]) (complete_lines (w_data w'))"
      using kept_lines [OF assms(1)] by (simp add: lines)
    show "length (w_data w') \<le> w_durable w'" if lossy
      using k(4) assms(5) [OF that] by simp
    show "entries_durable w'" if lossy "acc @ [r] \<noteq> []"
      using assms(5) [OF that(1)] steady_entries [OF k(3)] by simp
  qed
qed

lemma kept_host_loss:
  assumes "kept True acc w"
  shows "kept True acc (host_loss keep junk w)"
  using assms
proof (rule keptE)
  fix p q
  assume p: "w_data w = p @ q" "terminated p" "subseq acc (complete_lines p)" and d: "w_durable w \<le> length (w_data w)"
    and l: "True \<Longrightarrow> length p \<le> w_durable w" and e: "True \<Longrightarrow> acc \<noteq> [] \<Longrightarrow> entries_durable w"
  show ?thesis
  proof (cases "keep \<or> entries_durable w")
    case True
    have "w_data (host_loss keep junk w) = p @ (take (w_durable w - length p) q @ junk)"
      using True l p(1) by (simp add: host_loss_def)
    then show ?thesis
      by (rule keptI [OF _ _ p(2,3), rotated]) (use True d l e in \<open>simp_all add: host_loss_def entries_durable_def\<close>)
  next
    case False
    then have "acc = []" using e by blast
    then show ?thesis
      using False by (intro keptI [of _ "[]" "[]"]) (simp_all add: host_loss_def terminated_def)
  qed
qed

section \<open>The invariant\<close>

text \<open>
  At most one writer is open. It holds the lock through its own descriptor, and as long as it is not
  broken the file ends in a newline.
\<close>

definition writer_ok :: "syncer \<Rightarrow> writer \<Rightarrow> world \<Rightarrow> bool" where
  "writer_ok s wr w \<longleftrightarrow>
    w_lock w = Some (wr_lock wr) \<and> wr_lock wr < length (w_log w) \<and> wr_syncer wr = s
    \<and> (wr_broken wr = None \<longrightarrow> terminated (w_data w) \<and> (sy_mode s = HostLoss \<longrightarrow> entries_durable w))"

definition writers_ok :: "syncer \<Rightarrow> writer list \<Rightarrow> world \<Rightarrow> bool" where
  "writers_ok s wrs w = (case wrs of [] \<Rightarrow> w_lock w = None | wr # rest \<Rightarrow> rest = [] \<and> writer_ok s wr w)"

definition host_ok :: "bytes \<Rightarrow> world \<Rightarrow> bool" where
  "host_ok root w \<longleftrightarrow> \<not> w_dead w \<and> h_root (w_host w) = root \<and> h_events_dir (w_host w) = eventsDir root"

definition sys_inv :: "bool \<Rightarrow> bytes \<Rightarrow> syncer \<Rightarrow> bytes list \<Rightarrow> spool_sys \<Rightarrow> bool" where
  "sys_inv lossy root s base st \<longleftrightarrow>
    kept lossy (ss_accepted st) (ss_world st) \<and> host_ok root (ss_world st)
    \<and> writers_ok s (ss_writers st) (ss_world st)
    \<and> (\<not> lossy \<longrightarrow> spool_log.history base (ss_accepted st) (ss_attempted st) (w_data (ss_world st)))"

lemma history_lines:
  "spool_log.history base acc att d \<Longrightarrow> complete_lines d' = complete_lines d \<Longrightarrow> spool_log.history base acc att d'"
  by (simp add: spool_log.history_def)

lemma writer_ok_quiet:
  assumes "writer_ok s wr w" "quiet w w'"
  shows "writer_ok s wr w'"
  using assms steady_entries [OF quiet_steady [OF assms(2)]] quiet_log [OF assms(2)]
    quiet_lock [OF assms(2)] quiet_data [OF assms(2)]
  by (auto simp: writer_ok_def)

lemma reap_fields [simp]:
  "w_data (reap m w) = w_data w" "w_durable (reap m w) = w_durable w" "entries_durable (reap m w) = entries_durable w"
  "w_host (reap m w) = w_host w" "w_log (reap m w) = w_log w" "\<not> w_dead (reap m w)"
  by (simp_all add: reap_def entries_durable_def)

lemma reap_lock: "w_lock (reap m w) = (case w_lock w of None \<Rightarrow> None | Some fd \<Rightarrow> if m fd then None else Some fd)"
  by (simp add: reap_def)

lemma kept_reap: "kept lossy acc (reap m w) = kept lossy acc w"
  by (simp add: kept_def)

lemma host_ok_steady: "host_ok root w \<Longrightarrow> steady w w' \<Longrightarrow> \<not> w_dead w' \<Longrightarrow> host_ok root w'"
  by (simp add: host_ok_def steady_def)

lemma host_ok_reap: "host_ok root w \<Longrightarrow> steady w w' \<Longrightarrow> host_ok root (reap m w')"
  by (simp add: host_ok_def steady_def)

lemma repairing_parts:
  assumes "repairing w w'"
  shows "steady w w'" "complete_lines (w_data w') = complete_lines (w_data w)"
  using assms by (auto simp: repairing_def)

text \<open>A step that at most repairs the file keeps everything but the writers.\<close>

lemma sys_inv_repairing:
  assumes "sys_inv lossy root s base st" "repairing (ss_world st) w'"
    and "ss_accepted st' = ss_accepted st" "ss_attempted st' = ss_attempted st"
    and "ss_world st' = w' \<and> \<not> w_dead w' \<or> (\<exists>m. ss_world st' = reap m w')" "writers_ok s (ss_writers st') (ss_world st')"
  shows "sys_inv lossy root s base st'"
proof -
  note r = repairing_parts [OF assms(2)]
  have k: "kept lossy (ss_accepted st) w'"
    using assms(1) by (intro kept_repairing [OF _ assms(2)]) (simp add: sys_inv_def)
  have h: "host_ok root (ss_world st)" using assms(1) by (simp add: sys_inv_def)
  have "kept lossy (ss_accepted st') (ss_world st') \<and> host_ok root (ss_world st')
      \<and> complete_lines (w_data (ss_world st')) = complete_lines (w_data (ss_world st))"
    using assms(5) k host_ok_steady [OF h r(1)] host_ok_reap [OF h r(1)] r(2)
    by (elim disjE exE) (simp_all add: assms(3) kept_reap)
  then show ?thesis
    using assms(1,4,6) history_lines by (auto simp: sys_inv_def assms(3))
qed

lemma open_step_inv:
  assumes "sys_inv lossy root s base st"
  shows "sys_inv lossy root s base (open_step root source s st)"
proof (cases "ss_writers st")
  case Nil
  let ?w = "ss_world st"
  let ?w' = "exec (Open root source s) ?w"
  have l: "w_lock ?w = None" and h: "host_ok root ?w"
    using assms Nil by (simp_all add: sys_inv_def writers_ok_def)
  note o = Open_opened [OF l, of root source s]
  then have r: "repairing ?w ?w'" by (simp add: opened_def)
  show ?thesis
  proof (cases "w_dead ?w'")
    case True
    have "w_lock (reap (\<lambda>fd. length (w_log ?w) \<le> fd) ?w') = None"
      using o by (auto simp: opened_def reap_lock split: sum.splits)
    then show ?thesis
      using True Nil by (intro sys_inv_repairing [OF assms r]) (auto simp: open_step_def writers_ok_def Let_def)
  next
    case alive: False
    show ?thesis
    proof (cases "result (Open root source s) ?w")
      case (Inl e)
      then have "w_lock ?w' = None" using o alive by (simp add: opened_def)
      then show ?thesis
        using alive Nil Inl by (intro sys_inv_repairing [OF assms r]) (auto simp: open_step_def writers_ok_def Let_def)
    next
      case (Inr wr)
      have "writer_ok s wr ?w'"
        using o h by (auto simp: Inr opened_def writer_ok_def host_ok_def) (metis writer.select_convs(3))+
      then show ?thesis
        using alive Nil Inr by (intro sys_inv_repairing [OF assms r]) (auto simp: open_step_def writers_ok_def Let_def)
    qed
  qed
next
  case (Cons wr rest)
  let ?w = "ss_world st"
  let ?w' = "exec (Open root source s) ?w"
  have wr: "rest = []" "writer_ok s wr ?w"
    using assms Cons by (simp_all add: sys_inv_def writers_ok_def)
  then have l: "w_lock ?w = Some (wr_lock wr)" "wr_lock wr < length (w_log ?w)"
    by (simp_all add: writer_ok_def)
  have q: "quiet ?w ?w'" "isl (result (Open root source s) ?w)"
    using Open_locked [OF l, of root source s] by simp_all
  have ok: "writer_ok s wr ?w'" by (rule writer_ok_quiet [OF wr(2) q(1)])
  have "writer_ok s wr (reap (\<lambda>fd. length (w_log ?w) \<le> fd) ?w')"
    using ok l(2) by (auto simp: writer_ok_def reap_lock)
  then show ?thesis
    using ok q(2) Cons wr(1)
    by (intro sys_inv_repairing [OF assms quiet_repairing [OF q(1)]])
      (auto simp: open_step_def writers_ok_def Let_def split: sum.split)
qed

lemma drop_only [simp]: "drop_nth 0 [x] = []"
  by (simp add: drop_nth_def)

lemma only_writer:
  assumes "sys_inv lossy root s base st" "i < length (ss_writers st)"
  obtains wr where "ss_writers st = [wr]" "i = 0" "writer_ok s wr (ss_world st)"
  using assms by (auto simp: sys_inv_def writers_ok_def split: list.splits)

text \<open>A writer that goes away leaves no lock behind.\<close>

lemma reap_own: "w_lock w = None \<or> w_lock w = Some fd \<Longrightarrow> w_lock (reap (\<lambda>x. x = fd) w) = None"
  by (auto simp: reap_lock)

lemma close_step_inv:
  assumes "sys_inv lossy root s base st" "i < length (ss_writers st)"
  shows "sys_inv lossy root s base (close_step i st)"
proof (rule only_writer [OF assms])
  fix wr assume wr: "ss_writers st = [wr]" "i = 0" "writer_ok s wr (ss_world st)"
  let ?w = "ss_world st"
  let ?w1 = "exec (perform (Close EventsFile)) ?w"
  let ?w2 = "exec (perform (Close (LockFile (wr_lock wr)))) ?w1"
  have e: "exec (CloseWriter wr) ?w = ?w2" by (simp add: CloseWriter_def exec_bind)
  have q: "quiet ?w ?w1" by simp
  have r: "repairing ?w ?w2"
    by (rule hoareD [OF repairing_lock_calls(2) quiet_repairing [OF q]])
  have "w_lock ?w1 = Some (wr_lock wr)" using wr(3) quiet_lock [OF q] by (simp add: writer_ok_def)
  note l = Close_lock [OF this]
  then have "w_lock (reap (\<lambda>x. x = wr_lock wr) ?w2) = None"
    by (intro reap_own) blast
  then show ?thesis
    using wr l by (intro sys_inv_repairing [OF assms(1) r]) (auto simp: close_step_def writers_ok_def e Let_def)
qed

lemma crash_step_inv:
  assumes "sys_inv lossy root s base st" "i < length (ss_writers st)"
  shows "sys_inv lossy root s base (crash_step i st)"
proof (rule only_writer [OF assms])
  fix wr assume wr: "ss_writers st = [wr]" "i = 0" "writer_ok s wr (ss_world st)"
  then have "w_lock (reap (\<lambda>x. x = wr_lock wr) (ss_world st)) = None"
    by (intro reap_own) (simp add: writer_ok_def)
  then show ?thesis
    using wr by (intro sys_inv_repairing [OF assms(1) repairing_refl]) (auto simp: crash_step_def writers_ok_def)
qed

lemma host_loss_step_inv:
  assumes "sys_inv True root s base st"
  shows "sys_inv True root s base (st\<lparr>ss_world := host_loss keep junk (ss_world st), ss_writers := []\<rparr>)"
  using assms kept_host_loss [of "ss_accepted st" "ss_world st" keep junk]
  by (simp add: sys_inv_def host_ok_def writers_ok_def) (simp add: host_loss_def)

lemma append_step_inv:
  assumes "sys_inv lossy root s base st" "i < length (ss_writers st)" "lossy \<Longrightarrow> sy_mode s = HostLoss"
  shows "sys_inv lossy root s base (append_step i r st)"
proof (rule only_writer [OF assms(1,2)])
  fix wr assume wr: "ss_writers st = [wr]" "i = 0" "writer_ok s wr (ss_world st)"
  let ?w = "ss_world st"
  let ?w' = "exec (Append wr r) ?w"
  have inv: "kept lossy (ss_accepted st) ?w" "host_ok root ?w"
    "\<not> lossy \<Longrightarrow> spool_log.history base (ss_accepted st) (ss_attempted st) (w_data ?w)"
    using assms(1) by (simp_all add: sys_inv_def)
  show ?thesis
  proof (cases "case wr_broken wr of Some e \<Rightarrow> Some e | None \<Rightarrow> record_error r")
    case (Some e)
    then have "result (Append wr r) ?w = (Some e, wr)" "?w' = ?w"
      using Append_refused [of wr e r ?w] by (simp_all split: option.splits)
    then show ?thesis
      using wr inv spool_log.history_rejected by (auto simp: append_step_def sys_inv_def writers_ok_def Let_def host_ok_def)
  next
    case None
    then have ok: "wr_broken wr = None" "record_error r = None"
      by (simp_all split: option.splits)
    have a: "appended wr r ?w (result (Append wr r) ?w) ?w'" by (rule Append_appended [OF ok])
    then obtain k where s: "steady ?w ?w'" "w_lock ?w' = w_lock ?w" and d: "w_data ?w' = write_line (w_data ?w) r k"
      by (auto simp: appended_def)
    have t: "terminated (w_data ?w)" "sy_mode s = HostLoss \<Longrightarrow> entries_durable ?w" "wr_syncer wr = s"
      using wr(3) ok(1) by (simp_all add: writer_ok_def)
    have l: "w_lock ?w' = Some (wr_lock wr)" "wr_lock wr < length (w_log ?w')"
      using wr(3) s by (auto simp: writer_ok_def steady_def dest: prefix_length_le)
    have torn: "\<not> lossy \<Longrightarrow> spool_log.history base (ss_accepted st) (ss_attempted st @ [r]) (w_data ?w')"
      unfolding d by (rule spool_log.history_torn [OF inv(3) t(1) record_error_LF [OF ok(2)]])
    note k' = kept_appended [OF inv(1) a]
    show ?thesis
    proof (cases "w_dead ?w'")
      case True
      have "w_lock (reap (\<lambda>x. x = wr_lock wr) ?w') = None" using l by (intro reap_own) simp
      then show ?thesis
        using True wr k' torn host_ok_reap [OF inv(2) s(1)]
        by (simp add: append_step_def sys_inv_def writers_ok_def kept_reap)
    next
      case alive: False
      note h = host_ok_steady [OF inv(2) s(1) alive]
      obtain e wr' where res: "result (Append wr r) ?w = (e, wr')" by (cases "result (Append wr r) ?w")
      show ?thesis
      proof (cases e)
        case (Some x)
        then have "wr' = wr\<lparr>wr_broken := Some x\<rparr>" using a res by (simp add: appended_def)
        then have "writer_ok s wr' ?w'" using l t(3) by (simp add: writer_ok_def)
        then show ?thesis
          using alive wr res Some k' torn h by (simp add: append_step_def sys_inv_def writers_ok_def)
      next
        case acc: None
        then obtain n where full: "wr' = wr" "length r < n" and d: "w_data ?w' = write_line (w_data ?w) r n"
          using a res by (auto simp: appended_def)
        have "kept lossy (ss_accepted st @ [r]) ?w'"
          using a res acc full(1) t assms(3) by (intro kept_accepted [OF inv(1) _ ok(2) t(1)]) auto
        moreover have "terminated (w_data ?w')"
          unfolding d by (rule spool_log.clean_write [OF t(1) record_error_LF [OF ok(2)] full(2)])
        then have "writer_ok s wr ?w'"
          using l t steady_entries [OF s(1)] by (simp add: writer_ok_def)
        moreover have "\<not> lossy \<Longrightarrow> spool_log.history base (ss_accepted st @ [r]) (ss_attempted st @ [r]) (w_data ?w')"
          unfolding d by (rule spool_log.history_accept [OF inv(3) t(1) record_error_LF [OF ok(2)] full(2)])
        ultimately show ?thesis
          using alive wr res acc full(1) h by (simp add: append_step_def sys_inv_def writers_ok_def)
      qed
    qed
  qed
qed

lemma reach_inv:
  assumes "spool_reach lossy root source s w0 st" "lossy \<Longrightarrow> sy_mode s = HostLoss"
  shows "sys_inv lossy root s (complete_lines (w_data w0)) st"
  using assms(1)
proof induction
  case reach_start
  then show ?case
    using spool_log.history_start [of "w_data w0"]
    by (auto simp: fresh_start_def start_sys_def sys_inv_def host_ok_def writers_ok_def
        intro: keptI [of _ "[]"] simp: terminated_def)
next
  case (reach_step st ev)
  show ?case
  proof (cases ev)
    case (EvHostLoss keep junk)
    then show ?thesis using reach_step host_loss_step_inv by simp
  qed (use reach_step open_step_inv append_step_inv [OF _ _ assms(2)] close_step_inv crash_step_inv in auto)
qed

section \<open>Properties\<close>

text \<open>A history in which one record was accepted, with or without host losses among the faults.\<close>

definition accepted_once :: "bytes \<Rightarrow> spool_sys" where
  "accepted_once r = append_step 0 r (open_step ''/srv'' ''ci'' sample_syncer (start_sys sample_spool))"

lemma ready_alive: "ready s w \<Longrightarrow> \<not> w_dead w"
  by (simp add: ready_def calm_def)

lemma sample_opened:
  defines "st \<equiv> open_step ''/srv'' ''ci'' sample_syncer (start_sys sample_spool)"
  shows "ss_world st = exec (Open ''/srv'' ''ci'' sample_syncer) sample_spool" "ss_writers st = [sample_writer]"
    "ss_accepted st = []" "ready sample_syncer (ss_world st)"
proof -
  have r: "ready sample_syncer (exec (Open ''/srv'' ''ci'' sample_syncer) sample_spool)"
    using Open_succeeds [OF sample_slug sample_ready sample_root] by blast
  show w: "ss_world st = exec (Open ''/srv'' ''ci'' sample_syncer) sample_spool" and "ss_writers st = [sample_writer]"
    "ss_accepted st = []"
    using ready_alive [OF r] by (simp_all add: st_def open_step_def start_sys_def Let_def sample_open)
  show "ready sample_syncer (ss_world st)" unfolding w by (rule r)
qed

lemma sample_accepted:
  assumes "record_error r = None"
  shows "ss_accepted (accepted_once r) = [r]" "ss_writers (accepted_once r) = [sample_writer]"
    "ready sample_syncer (ss_world (accepted_once r))"
    "spool_reach lossy ''/srv'' ''ci'' sample_syncer sample_spool (accepted_once r)"
proof -
  let ?st = "open_step ''/srv'' ''ci'' sample_syncer (start_sys sample_spool)"
  note o = sample_opened
  have a: "result (Append sample_writer r) (ss_world ?st) = (None, sample_writer)"
    "ready sample_syncer (exec (Append sample_writer r) (ss_world ?st))"
    using Append_succeeds [of sample_writer r "ss_world ?st"] o(4) assms by (simp_all add: sample_writer_def)
  show "ss_accepted (accepted_once r) = [r]" "ss_writers (accepted_once r) = [sample_writer]"
    "ready sample_syncer (ss_world (accepted_once r))"
    using ready_alive [OF a(2)] a by (simp_all add: accepted_once_def append_step_def Let_def o(2,3))
  have "fresh_start ''/srv'' sample_spool"
    by (simp add: fresh_start_def sample_spool_def sample_world_def sample_host_def sample_eventsDir)
  then have "spool_reach lossy ''/srv'' ''ci'' sample_syncer sample_spool (start_sys sample_spool)"
    by (rule reach_start)
  then have "spool_reach lossy ''/srv'' ''ci'' sample_syncer sample_spool
      (sys_step ''/srv'' ''ci'' sample_syncer EvOpen (start_sys sample_spool))"
    by (rule reach_step) simp
  then have "spool_reach lossy ''/srv'' ''ci'' sample_syncer sample_spool
      (sys_step ''/srv'' ''ci'' sample_syncer (EvAppend 0 r) (sys_step ''/srv'' ''ci'' sample_syncer EvOpen (start_sys sample_spool)))"
    by (rule reach_step) simp
  then show "spool_reach lossy ''/srv'' ''ci'' sample_syncer sample_spool (accepted_once r)"
    by (simp add: accepted_once_def o(2))
qed

lemma ready_reap: "ready s w \<Longrightarrow> ready s (reap m w)"
  by (simp add: ready_def calm_def) (simp add: reap_def)

text \<open>
  C2. No accepted record is ever lost: after any interleaving of opens, appends, closes, process deaths
  at any call, and (with a syncer of the stronger mode) host losses, the records reported as accepted
  are whole lines of the file, in the order of acceptance.
\<close>

theorem accepted_never_lost:
  assumes "spool_reach lossy root source s w0 st" "lossy \<longrightarrow> sy_mode s = HostLoss"
  shows "subseq (ss_accepted st) (complete_lines (w_data (ss_world st)))"
proof -
  have "kept lossy (ss_accepted st) (ss_world st)"
    using reach_inv [OF assms(1)] assms(2) by (simp add: sys_inv_def)
  then show ?thesis by (rule kept_lines)
qed

theorem accepted_never_lost_witness:
  "''[]'' \<in> set (complete_lines (w_data (host_loss False ''x'' (ss_world (accepted_once ''[]'')))))"
proof -
  have "spool_reach True ''/srv'' ''ci'' sample_syncer sample_spool
      (sys_step ''/srv'' ''ci'' sample_syncer (EvHostLoss False ''x'') (accepted_once ''[]''))"
    by (rule reach_step [OF sample_accepted(4) [OF sample_record]]) simp
  from accepted_never_lost [OF this] show ?thesis
    using sample_accepted(1) [OF sample_record] by (simp add: sample_sees subseq_singleton_left)
qed

text \<open>
  C5. At most one writer is open in any reachable state, and the advisory lock is held exactly while
  one is, through that writer's own descriptor.
\<close>

theorem single_writer:
  assumes "spool_reach lossy root source s w0 st" "lossy \<longrightarrow> sy_mode s = HostLoss"
  shows "length (ss_writers st) \<le> 1 \<and> (w_lock (ss_world st) = None \<longleftrightarrow> ss_writers st = [])
    \<and> (\<forall>wr \<in> set (ss_writers st). w_lock (ss_world st) = Some (wr_lock wr))"
  using reach_inv [OF assms(1)] assms(2)
  by (auto simp: sys_inv_def writers_ok_def writer_ok_def split: list.splits)

theorem single_writer_witness:
  "w_lock (ss_world (accepted_once ''[]'')) = Some 1"
  using single_writer [OF sample_accepted(4) [OF sample_record, of True]] sample_accepted(2) [OF sample_record]
  by (simp add: sample_sees sample_writer_def)

text \<open>
  C3. The spool invents nothing: as long as the host does not lose power, the file holds the lines it
  held at the start and then some of the records whose append was attempted, in that order, all the
  accepted ones among them.
\<close>

theorem nothing_invented:
  assumes "spool_reach False root source s w0 st"
  shows "\<exists>L. complete_lines (w_data (ss_world st)) = complete_lines (w_data w0) @ L
    \<and> subseq (ss_accepted st) L \<and> subseq L (ss_attempted st)"
  using reach_inv [OF assms] by (simp add: sys_inv_def spool_log.history_def)

theorem nothing_invented_witness:
  "\<exists>L. complete_lines (w_data (ss_world (accepted_once ''[]''))) = ''a'' # L \<and> subseq [''[]''] L"
proof -
  have "complete_lines (w_data sample_spool) = [''a'']"
    by (simp add: sample_spool_def complete_lines_def)
  then show ?thesis
    using nothing_invented [OF sample_accepted(4) [OF sample_record]] sample_accepted(1) [OF sample_record] by auto
qed

text \<open>
  C4. Recovery: whatever happened before, once no process has the spool open and the calls complete
  again, opening it yields an unbroken writer on a file of whole lines that hold every accepted record.
\<close>

theorem reopen_recovers:
  assumes "spool_reach lossy root source s w0 st" "lossy \<longrightarrow> sy_mode s = HostLoss" "ss_writers st = []"
    and "validate_slug ''source'' source = None" "ready s (ss_world st)" "is_rooted root" "path_clean root = sy_dir s"
  shows "\<exists>wr. ss_writers (sys_step root source s EvOpen st) = [wr] \<and> wr_broken wr = None
    \<and> terminated (w_data (ss_world (sys_step root source s EvOpen st)))
    \<and> subseq (ss_accepted st) (complete_lines (w_data (ss_world (sys_step root source s EvOpen st))))"
proof -
  let ?w = "ss_world st"
  let ?w' = "exec (Open root source s) ?w"
  have inv: "kept lossy (ss_accepted st) ?w" "w_lock ?w = None"
    using reach_inv [OF assms(1)] assms(2,3) by (simp_all add: sys_inv_def writers_ok_def)
  obtain wr where wr: "result (Open root source s) ?w = Inr wr" "ready s ?w'"
    using Open_succeeds [OF assms(4,5) inv(2) assms(6,7)] by blast
  have st': "ss_writers (sys_step root source s EvOpen st) = [wr]" "ss_world (sys_step root source s EvOpen st) = ?w'"
    using wr(1) ready_alive [OF wr(2)] assms(3) by (simp_all add: open_step_def Let_def)
  have o: "opened root source s ?w (Inr wr) ?w'"
    using Open_opened [OF inv(2), of root source s] wr(1) by simp
  then have "wr = \<lparr>wr_source = source, wr_lock = wr_lock wr, wr_syncer = s, wr_broken = None\<rparr>"
    and d: "w_data ?w' = whole (w_data ?w)"
    by (simp_all add: opened_def)
  then have "wr_broken wr = None" by (metis writer.select_convs(4))
  moreover have "subseq (ss_accepted st) (complete_lines (w_data ?w'))"
    using kept_lines [OF inv(1)] by (simp add: d)
  ultimately show ?thesis
    by (intro exI [of _ wr]) (simp only: st' d terminated_whole simp_thms)
qed

theorem reopen_recovers_witness:
  "\<exists>wr. ss_writers (sys_step ''/srv'' ''ci'' sample_syncer EvOpen (crash_step 0 (accepted_once ''[]''))) = [wr]
    \<and> wr_broken wr = None"
proof -
  let ?st = "crash_step 0 (accepted_once ''[]'')"
  note a = sample_accepted [OF sample_record]
  have "spool_reach True ''/srv'' ''ci'' sample_syncer sample_spool
      (sys_step ''/srv'' ''ci'' sample_syncer (EvCrash 0) (accepted_once ''[]''))"
    by (rule reach_step [OF a(4)]) simp
  then have r: "spool_reach True ''/srv'' ''ci'' sample_syncer sample_spool ?st"
    by (simp add: a(2))
  have "ss_writers ?st = []" "ready sample_syncer (ss_world ?st)"
    using ready_reap [OF a(3)] by (simp_all add: crash_step_def a(2))
  from reopen_recovers [OF r _ this(1) sample_slug this(2) sample_root] show ?thesis
    by (auto simp: sample_sees)
qed

end
