(* ===== verification/Go_Int.thy ===== *)
theory Go_Int
  imports "HOL-Library.Word"
begin

text \<open>
  Go's fixed-width integers as words: a value within the range of the type is read back unchanged, at the
  64 bits of \<open>int64\<close> and, for values below \<open>2 ^ 31\<close>, at any width an \<open>int\<close> may have.
\<close>

lemma sint_64: "- (2 ^ 63) \<le> n \<Longrightarrow> n < 2 ^ 63 \<Longrightarrow> sint (word_of_int n :: 64 word) = n"
  by (simp add: sint_sbintrunc' signed_take_bit_int_eq_self)

lemma sint_of_nat: "n < 2 ^ 63 \<Longrightarrow> sint (word_of_nat n :: 64 word) = int n"
  using sint_64 [of "int n"] by simp

lemma sint_small:
  assumes "0 \<le> n" "n < 2 ^ 31" "32 \<le> LENGTH('w::len)"
  shows "sint (word_of_int n :: 'w word) = n"
proof -
  have "n < 2 ^ (LENGTH('w) - 1)"
    using assms power_increasing [of 31 "LENGTH('w) - 1" "2 :: int"] by simp
  moreover have "- (2 ^ (LENGTH('w) - 1)) \<le> n"
    using assms(1) by (meson neg_le_0_iff_le order_trans zero_le_numeral zero_le_power)
  ultimately show ?thesis
    by (simp add: sint_sbintrunc' signed_take_bit_int_eq_self)
qed

end
