(* ===== verification/Manifest.thy ===== *)
theory Manifest
  imports Event Json_Number "HOL-Library.Word" "HOL-Library.Signed_Division"
begin

text \<open>
  \<open>internal/contract/manifest.go\<close>: loading \<open>monitors.yaml\<close>. The YAML decoder is a third-party package:
  \<open>decode data n\<close> is the outcome of the \<open>n\<close>-th call of its \<open>Decode\<close> on \<open>data\<close>. A \<open>float64\<close> enters the
  code only through the shortest decimal that \<open>strconv.FormatFloat\<close> prints, so it is modelled as that
  decimal. A Go \<open>int\<close> is a word of a width \<open>'w\<close> that the platform chooses; \<open>int64\<close> and durations are 64-bit
  words. A failed type assertion and the explicit \<open>panic\<close> are the error \<open>ManifestPanic\<close>; its
  argument names the field or the lexeme. The order in which Go ranges over the members of a map decides
  only which of several errors is reported; the model takes the order of the list. The second part
  translates \<open>schemas/monitors.schema.json\<close>, and \<open>manifest_implemented\<close> is the hypothesis that the validator
  implements it: an integer is a JSON number whose exact value is one, whatever its notation.
\<close>

section \<open>Constants and data\<close>

definition Second :: "64 word" where "Second = 1000000000"

definition DefaultSeverityFloor :: bytes where "DefaultSeverityFloor = SeverityInfo"
definition DefaultBatchSize :: int where "DefaultBatchSize = 20"
definition DefaultInterval :: "64 word" where "DefaultInterval = 60 * Second"
definition MinInterval :: "64 word" where "MinInterval = 5 * Second"
definition DefaultRotateBytes :: "64 word" where "DefaultRotateBytes = 8388608"
definition DefaultRetentionBytes :: "64 word" where "DefaultRetentionBytes = 134217728"
definition DefaultCursorGrace :: "64 word" where "DefaultCursorGrace = 7 * 24 * 3600 * Second"
definition DefaultIdleTimeout :: "64 word" where "DefaultIdleTimeout = 5 * 60 * Second"

definition TierPush :: bytes where "TierPush = ''push''"
definition TierHook :: bytes where "TierHook = ''hook''"
definition TierMCP :: bytes where "TierMCP = ''mcp''"
definition TierProse :: bytes where "TierProse = ''prose''"

record 'i monitor =
  mon_name :: bytes
  mon_command :: "bytes list"
  mon_description :: bytes
  mon_trigger :: bytes
  mon_tiers :: "bytes list"
  mon_follow :: bool
  mon_severity_floor :: bytes
  mon_batch_size :: 'i
  mon_max_event_bytes :: 'i
  mon_interval :: "64 word"
  mon_rotate_bytes :: "64 word"
  mon_retention_bytes :: "64 word"
  mon_retention_age :: "64 word"
  mon_cursor_grace :: "64 word"
  mon_idle_timeout :: "64 word"

text \<open>A finite \<open>float64\<close>: sign, shortest digits, position of the decimal point before or among them.\<close>

datatype float64 = NaN | Infinity bool | Finite bool "nat list" int

datatype yval =
    YNil
  | YBool bool
  | YString bytes
  | YInt "64 word"
  | YInt64 "64 word"
  | YUint64 "64 word"
  | YFloat float64
  | YSeq "yval list"
  | YMap "(bytes \<times> yval) list"
  | YOther bytes

datatype 'y decoded = Document yval | EndOfStream | DecodeError 'y

datatype ('v, 'y) manifest_error =
    EmptyManifest
  | YamlError 'y
  | MultipleDocuments "'y option"
  | UnsupportedValue bytes
  | ManifestSchema 'v
  | BadSourceName slug_error
  | RotateRatio bytes "64 word" "64 word"
  | DuplicateSource bytes bytes
  | ManifestPanic bytes

section \<open>Numbers\<close>

definition format_int :: "int \<Rightarrow> bytes" where
  "format_int n = (if n < 0 then CHR ''-'' # itoa (nat (- n)) else itoa (nat n))"

text \<open>\<open>strconv.FormatFloat\<close> in format \<open>g\<close> with the shortest precision.\<close>

definition fmt_e :: "nat list \<Rightarrow> int \<Rightarrow> bytes" where
  "fmt_e ds dp =
    (let e = (if ds = [] then 0 else dp - 1) in
     (case ds of
        [] \<Rightarrow> ''0''
      | d # rest \<Rightarrow> digit_char d # (if rest = [] then [] else CHR ''.'' # map digit_char rest))
     @ CHR ''e'' # (if e < 0 then CHR ''-'' else CHR ''+'') # pad_int 2 (nat \<bar>e\<bar>))"

definition fmt_f :: "nat list \<Rightarrow> int \<Rightarrow> bytes" where
  "fmt_f ds dp =
    (if dp > 0
     then map digit_char (take (nat dp) ds) @ replicate (nat dp - length ds) (CHR ''0'')
     else ''0'')
    @ (if int (length ds) > dp
       then CHR ''.'' # replicate (nat (- dp)) (CHR ''0'') @ map digit_char (drop (nat dp) ds)
       else [])"

definition format_float :: "float64 \<Rightarrow> bytes" where
  "format_float f =
    (case f of
       NaN \<Rightarrow> ''NaN''
     | Infinity neg \<Rightarrow> if neg then ''-Inf'' else ''+Inf''
     | Finite neg ds dp \<Rightarrow>
         (if neg then ''-'' else []) @ (if dp - 1 < -4 \<or> dp - 1 \<ge> 6 then fmt_e ds dp else fmt_f ds dp))"

text \<open>\<open>json.Number.Int64\<close>, that is \<open>strconv.ParseInt\<close> in base 10 and 64 bits.\<close>

definition parse_int64 :: "bytes \<Rightarrow> int option" where
  "parse_int64 s =
    (let neg = (s \<noteq> [] \<and> hd s = CHR ''-'');
         t = (if s \<noteq> [] \<and> (hd s = CHR ''-'' \<or> hd s = CHR ''+'') then tl s else s)
     in (case parse_digits t of
           None \<Rightarrow> None
         | Some n \<Rightarrow>
             if neg then (if n \<le> 2 ^ 63 then Some (- int n) else None)
             else (if n < 2 ^ 63 then Some (int n) else None)))"

definition mustInt64 :: "jval \<Rightarrow> ('v, 'y) manifest_error + 64 word" where
  "mustInt64 v =
    (case v of
       JNumber lexeme \<Rightarrow>
         (case parse_int64 lexeme of Some n \<Rightarrow> Inr (word_of_int n) | None \<Rightarrow> Inl (ManifestPanic lexeme))
     | _ \<Rightarrow> Inl (ManifestPanic ''json.Number''))"

section \<open>From YAML to JSON values\<close>

fun yamlToJSON :: "yval \<Rightarrow> ('v, 'y) manifest_error + jval"
  and yaml_elems :: "yval list \<Rightarrow> ('v, 'y) manifest_error + jval list"
  and yaml_members :: "(bytes \<times> yval) list \<Rightarrow> ('v, 'y) manifest_error + (bytes \<times> jval) list"
where
  "yamlToJSON YNil = Inr JNull"
| "yamlToJSON (YBool b) = Inr (JBool b)"
| "yamlToJSON (YString s) = Inr (JString s)"
| "yamlToJSON (YInt n) = Inr (JNumber (format_int (sint n)))"
| "yamlToJSON (YInt64 n) = Inr (JNumber (format_int (sint n)))"
| "yamlToJSON (YUint64 n) = Inr (JNumber (format_int (uint n)))"
| "yamlToJSON (YFloat f) = Inr (JNumber (format_float f))"
| "yamlToJSON (YSeq vs) = (case yaml_elems vs of Inl e \<Rightarrow> Inl e | Inr out \<Rightarrow> Inr (JArray out))"
| "yamlToJSON (YMap ms) = (case yaml_members ms of Inl e \<Rightarrow> Inl e | Inr out \<Rightarrow> Inr (JObject out))"
| "yamlToJSON (YOther t) = Inl (UnsupportedValue t)"
| "yaml_elems [] = Inr []"
| "yaml_elems (v # vs) =
    (case yamlToJSON v of
       Inl e \<Rightarrow> Inl e
     | Inr conv \<Rightarrow> (case yaml_elems vs of Inl e \<Rightarrow> Inl e | Inr out \<Rightarrow> Inr (conv # out)))"
| "yaml_members [] = Inr []"
| "yaml_members ((key, v) # ms) =
    (case yamlToJSON v of
       Inl e \<Rightarrow> Inl e
     | Inr conv \<Rightarrow> (case yaml_members ms of Inl e \<Rightarrow> Inl e | Inr out \<Rightarrow> Inr ((key, conv) # out)))"

lemma yaml_no_panic:
  "(yamlToJSON y :: ('v, 'y) manifest_error + jval) \<noteq> Inl (ManifestPanic k)"
  "(yaml_elems ys :: ('v, 'y) manifest_error + jval list) \<noteq> Inl (ManifestPanic k)"
  "(yaml_members ms :: ('v, 'y) manifest_error + (bytes \<times> jval) list) \<noteq> Inl (ManifestPanic k)"
  by (induction y and ys and ms rule: yamlToJSON_yaml_elems_yaml_members.induct) (auto split: sum.splits)

lemmas yamlToJSON_no_panic = yaml_no_panic(1)

section \<open>Building a monitor\<close>

definition must_string :: "(bytes \<times> jval) list \<Rightarrow> bytes \<Rightarrow> ('v, 'y) manifest_error + bytes" where
  "must_string obj k = (case map_of obj k of Some (JString s) \<Rightarrow> Inr s | _ \<Rightarrow> Inl (ManifestPanic k))"

fun must_strings :: "bytes \<Rightarrow> jval list \<Rightarrow> ('v, 'y) manifest_error + bytes list" where
  "must_strings k [] = Inr []"
| "must_strings k (v # vs) =
    (case v of
       JString s \<Rightarrow> (case must_strings k vs of Inl e \<Rightarrow> Inl e | Inr out \<Rightarrow> Inr (s # out))
     | _ \<Rightarrow> Inl (ManifestPanic k))"

definition must_string_array :: "(bytes \<times> jval) list \<Rightarrow> bytes \<Rightarrow> ('v, 'y) manifest_error + bytes list" where
  "must_string_array obj k = (case map_of obj k of Some (JArray vs) \<Rightarrow> must_strings k vs | _ \<Rightarrow> Inl (ManifestPanic k))"

text \<open>\<open>if v, present := obj[k]; present\<close>, with the default the field already holds.\<close>

definition optional_field ::
  "(bytes \<times> jval) list \<Rightarrow> bytes \<Rightarrow> 'a \<Rightarrow> (jval \<Rightarrow> ('v, 'y) manifest_error + 'a) \<Rightarrow> ('v, 'y) manifest_error + 'a" where
  "optional_field obj k d f = (case map_of obj k of None \<Rightarrow> Inr d | Some v \<Rightarrow> f v)"

definition must_bool :: "jval \<Rightarrow> ('v, 'y) manifest_error + bool" where
  "must_bool v = (case v of JBool b \<Rightarrow> Inr b | _ \<Rightarrow> Inl (ManifestPanic ''bool''))"

definition must_text :: "jval \<Rightarrow> ('v, 'y) manifest_error + bytes" where
  "must_text v = (case v of JString s \<Rightarrow> Inr s | _ \<Rightarrow> Inl (ManifestPanic ''string''))"

definition must_int :: "jval \<Rightarrow> ('v, 'y) manifest_error + 'w::len word" where
  "must_int v = bind_err (mustInt64 v) (\<lambda>n. Inr (scast n))"

definition must_seconds :: "jval \<Rightarrow> ('v, 'y) manifest_error + 64 word" where
  "must_seconds v = bind_err (mustInt64 v) (\<lambda>n. Inr (n * Second))"

definition newMonitor :: "(bytes \<times> jval) list \<Rightarrow> ('v, 'y) manifest_error + 'w::len word monitor" where
  "newMonitor obj =
    bind_err (must_string_array obj ''command'') (\<lambda>command.
    bind_err (must_string_array obj ''tiers'') (\<lambda>tiers.
    bind_err (must_string obj ''name'') (\<lambda>name.
    bind_err (must_string obj ''description'') (\<lambda>description.
    bind_err (must_string obj ''trigger'') (\<lambda>trigger.
    bind_err (optional_field obj ''follow'' False must_bool) (\<lambda>follow.
    bind_err (optional_field obj ''severity_floor'' DefaultSeverityFloor must_text) (\<lambda>severity_floor.
    bind_err (optional_field obj ''batch_size'' (word_of_int DefaultBatchSize) must_int) (\<lambda>batch_size.
    bind_err (optional_field obj ''max_event_bytes'' (word_of_int DefaultMaxEventBytes) must_int) (\<lambda>max_event_bytes.
    bind_err (optional_field obj ''rotate_bytes'' DefaultRotateBytes mustInt64) (\<lambda>rotate_bytes.
    bind_err (optional_field obj ''retention_bytes'' DefaultRetentionBytes mustInt64) (\<lambda>retention_bytes.
    bind_err (optional_field obj ''interval'' DefaultInterval must_seconds) (\<lambda>interval.
    bind_err (optional_field obj ''retention_age'' 0 must_seconds) (\<lambda>retention_age.
    bind_err (optional_field obj ''cursor_grace'' DefaultCursorGrace must_seconds) (\<lambda>cursor_grace.
    bind_err (optional_field obj ''idle_timeout'' DefaultIdleTimeout must_seconds) (\<lambda>idle_timeout.
      Inr \<lparr>mon_name = name, mon_command = command, mon_description = description, mon_trigger = trigger,
           mon_tiers = tiers, mon_follow = follow, mon_severity_floor = severity_floor,
           mon_batch_size = batch_size, mon_max_event_bytes = max_event_bytes, mon_interval = interval,
           mon_rotate_bytes = rotate_bytes, mon_retention_bytes = retention_bytes,
           mon_retention_age = retention_age, mon_cursor_grace = cursor_grace,
           mon_idle_timeout = idle_timeout\<rparr>)))))))))))))))"

section \<open>Loading\<close>

definition rotate_exceeds :: "'i monitor \<Rightarrow> bool" where
  "rotate_exceeds m \<longleftrightarrow> sint (mon_rotate_bytes m) > sint (mon_retention_bytes m) sdiv 2"

fun load_entries ::
  "(bytes \<rightharpoonup> bytes) \<Rightarrow> ('w::len) word monitor list \<Rightarrow> jval list \<Rightarrow> ('v, 'y) manifest_error + 'w word monitor list" where
  "load_entries seen monitors [] = Inr monitors"
| "load_entries seen monitors (entry # entries) =
    (case entry of
       JObject obj \<Rightarrow>
         (case newMonitor obj of
            Inl e \<Rightarrow> Inl e
          | Inr monitor \<Rightarrow>
              (case validate_slug ''source name'' (mon_name monitor) of
                 Some e \<Rightarrow> Inl (BadSourceName e)
               | None \<Rightarrow>
                   if rotate_exceeds monitor
                   then Inl (RotateRatio (mon_name monitor) (mon_rotate_bytes monitor) (mon_retention_bytes monitor))
                   else (let folded = map ascii_lower (mon_name monitor) in
                     (case seen folded of
                        Some prior \<Rightarrow> Inl (DuplicateSource (mon_name monitor) prior)
                      | None \<Rightarrow> load_entries (seen(folded \<mapsto> mon_name monitor)) (monitors @ [monitor]) entries))))
     | _ \<Rightarrow> Inl (ManifestPanic ''entry''))"

definition ParseManifest ::
  "(bytes \<Rightarrow> nat \<Rightarrow> 'y decoded) \<Rightarrow> ('s \<Rightarrow> jval \<Rightarrow> 'v option) \<Rightarrow> 's schemaSet \<Rightarrow> bytes \<Rightarrow>
   ('v, 'y) manifest_error + 'w::len word monitor list" where
  "ParseManifest decode validate S data =
    (case decode data 0 of
       EndOfStream \<Rightarrow> Inl EmptyManifest
     | DecodeError e \<Rightarrow> Inl (YamlError e)
     | Document doc \<Rightarrow>
         if doc = YNil then Inl EmptyManifest
         else (case decode data 1 of
                 Document _ \<Rightarrow> Inl (MultipleDocuments None)
               | DecodeError e \<Rightarrow> Inl (MultipleDocuments (Some e))
               | EndOfStream \<Rightarrow>
                   bind_err (yamlToJSON doc) (\<lambda>value.
                     (case validate (manifestSchema S) value of
                        Some e \<Rightarrow> Inl (ManifestSchema e)
                      | None \<Rightarrow>
                          (case value of
                             JArray entries \<Rightarrow> load_entries Map.empty [] entries
                           | _ \<Rightarrow> Inl (ManifestPanic ''array''))))))"

section \<open>The manifest schema\<close>

definition trigger_ok :: "bytes \<Rightarrow> bool" where
  "trigger_ok s \<longleftrightarrow>
    s = ''session-start''
    \<or> (prefix ''on-skill-invoke:'' s \<and> slug_pattern (drop 16 s) \<and> length (drop 16 s) \<le> 128)"

definition is_string :: "jval \<Rightarrow> bool" where
  "is_string v = (case v of JString s \<Rightarrow> True | _ \<Rightarrow> False)"

definition int_field_ok :: "(bytes \<times> jval) list \<Rightarrow> bytes \<times> int \<times> int \<Rightarrow> bool" where
  "int_field_ok obj bound =
    (case bound of (k, lo, hi) \<Rightarrow>
      (case map_of obj k of
         None \<Rightarrow> True
       | Some (JNumber lexeme) \<Rightarrow> (case json_integer lexeme of Some n \<Rightarrow> lo \<le> n \<and> n \<le> hi | None \<Rightarrow> False)
       | Some _ \<Rightarrow> False))"

definition int_bounds :: "(bytes \<times> int \<times> int) list" where
  "int_bounds =
    [(''batch_size'', 1, 1000), (''max_event_bytes'', 1024, 1048576), (''interval'', 5, 86400),
     (''rotate_bytes'', 65536, 1073741824), (''retention_bytes'', 1048576, 1099511627776),
     (''retention_age'', 3600, 31536000), (''cursor_grace'', 3600, 31536000), (''idle_timeout'', 30, 86400)]"

definition monitor_keys :: "bytes list" where
  "monitor_keys =
    [''name'', ''command'', ''description'', ''trigger'', ''tiers'', ''follow'', ''severity_floor''] @ map fst int_bounds"

definition tier_names :: "bytes list" where
  "tier_names = [TierPush, TierHook, TierMCP, TierProse]"

definition array_member :: "(bytes \<times> jval) list \<Rightarrow> bytes \<Rightarrow> (jval list \<Rightarrow> bool) \<Rightarrow> bool" where
  "array_member obj k p \<longleftrightarrow> (case map_of obj k of Some (JArray vs) \<Rightarrow> p vs | _ \<Rightarrow> False)"

definition optional_member :: "(bytes \<times> jval) list \<Rightarrow> bytes \<Rightarrow> (jval \<Rightarrow> bool) \<Rightarrow> bool" where
  "optional_member obj k p \<longleftrightarrow> (case map_of obj k of None \<Rightarrow> True | Some v \<Rightarrow> p v)"

definition monitor_ok :: "(bytes \<times> jval) list \<Rightarrow> bool" where
  "monitor_ok obj \<longleftrightarrow>
    string_member obj ''name'' (\<lambda>s. slug_pattern s \<and> rune_count s \<le> 128)
    \<and> array_member obj ''command'' (\<lambda>vs. vs \<noteq> [] \<and> list_all is_string vs)
    \<and> string_member obj ''description'' (\<lambda>s. 1 \<le> rune_count s)
    \<and> string_member obj ''trigger'' trigger_ok
    \<and> array_member obj ''tiers'' (\<lambda>vs. vs \<noteq> [] \<and> distinct vs \<and> list_all (\<lambda>v. v \<in> JString ` set tier_names) vs)
    \<and> optional_member obj ''follow'' (\<lambda>v. v = JBool True \<or> v = JBool False)
    \<and> optional_member obj ''severity_floor'' (\<lambda>v. v \<in> JString ` {SeverityInfo, SeverityWarn, SeverityError})
    \<and> list_all (int_field_ok obj) int_bounds
    \<and> list_all (\<lambda>p. fst p \<in> set monitor_keys) obj"

fun manifest_ok :: "jval \<Rightarrow> bool" where
  "manifest_ok (JArray vs) = list_all (\<lambda>v. case v of JObject obj \<Rightarrow> monitor_ok obj | _ \<Rightarrow> False) vs"
| "manifest_ok _ = False"

definition manifest_implemented :: "('s \<Rightarrow> jval \<Rightarrow> 'v option) \<Rightarrow> 's schemaSet \<Rightarrow> bool" where
  "manifest_implemented validate S \<longleftrightarrow> (\<forall>v. validate (manifestSchema S) v = None \<longleftrightarrow> manifest_ok v)"

end
