(* ===== verification/Manifest_Load.thy ===== *)
theory Manifest_Load
  imports Manifest Event_Parse Go_Int
begin

text \<open>
  What the manifest loader guarantees: the two number grammars (\<open>strconv.ParseInt\<close> and the schema's integer)
  agree wherever both read a lexeme; \<open>newMonitor\<close> on a schema-valid entry is \<open>monitor_of\<close> or a panic;
  \<open>load_entries\<close> on schema-valid entries, by induction; and from these the properties of \<open>ParseManifest\<close>.
\<close>

section \<open>Plain integers\<close>

lemma parse_int64_json:
  assumes "parse_int64 s = Some n" "json_integer s = Some m"
  shows "n = m"
proof (cases "s \<noteq> [] \<and> (hd s = CHR ''-'' \<or> hd s = CHR ''+'')")
  case True
  then obtain c t where s: "s = c # t" "c = CHR ''-'' \<or> c = CHR ''+''" by (cases s) auto
  obtain k where k: "parse_digits t = Some k"
    using assms(1) s by (auto simp: parse_int64_def split: option.splits)
  show ?thesis
  proof (cases "c = CHR ''-''")
    case True
    then show ?thesis
      using assms s k json_integer_digits(2) [OF k] by (auto simp: parse_int64_def split: if_splits)
  next
    case False
    then have c: "c = CHR ''+''" using s by simp
    have "json_integer (CHR ''+'' # t) = None"
    proof -
      have "parse_digits (takeWhile (\<lambda>c. c \<noteq> CHR ''.'') (takeWhile (\<lambda>c. c \<noteq> CHR ''e'' \<and> c \<noteq> CHR ''E'') (CHR ''+'' # t)) @ r) = None" for r
        by (simp add: parse_digits_def is_digit_def)
      then show ?thesis by (simp add: json_integer_def)
    qed
    then show ?thesis using assms(2) s c by simp
  qed
next
  case False
  then obtain k where k: "parse_digits s = Some k"
    using assms(1) by (auto simp: parse_int64_def split: option.splits)
  then show ?thesis
    using assms False json_integer_digits(1) [OF k] by (auto simp: parse_int64_def split: if_splits)
qed

lemma json_integer_format [simp]: "json_integer (format_int n) = Some n"
  using json_integer_digits [OF parse_digits_itoa] by (simp add: format_int_def)

lemma parse_int64_format [simp]:
  "- (2 ^ 63) \<le> n \<Longrightarrow> n < 2 ^ 63 \<Longrightarrow> parse_int64 (format_int n) = Some n"
  by (auto simp: parse_int64_def format_int_def itoa_no_sign nat_less_iff nat_le_iff)

section \<open>Building from a validated entry\<close>

text \<open>What \<open>newMonitor\<close> has to return: every declared value, and the default of every absent one.\<close>

definition int_of :: "(bytes \<times> jval) list \<Rightarrow> bytes \<Rightarrow> int \<Rightarrow> int" where
  "int_of obj k d =
    (case map_of obj k of Some (JNumber lexeme) \<Rightarrow> (case json_integer lexeme of Some n \<Rightarrow> n | None \<Rightarrow> d) | _ \<Rightarrow> d)"

definition strings_of :: "(bytes \<times> jval) list \<Rightarrow> bytes \<Rightarrow> bytes list" where
  "strings_of obj k =
    (case map_of obj k of
       Some (JArray vs) \<Rightarrow> map (\<lambda>v. case v of JString s \<Rightarrow> s | _ \<Rightarrow> []) vs
     | _ \<Rightarrow> [])"

definition seconds :: "int \<Rightarrow> 64 word" where
  "seconds n = word_of_int (n * 1000000000)"

definition monitor_of :: "(bytes \<times> jval) list \<Rightarrow> 'w::len word monitor" where
  "monitor_of obj =
    \<lparr>mon_name = string_or_empty obj ''name'', mon_command = strings_of obj ''command'',
     mon_description = string_or_empty obj ''description'', mon_trigger = string_or_empty obj ''trigger'',
     mon_tiers = strings_of obj ''tiers'', mon_follow = (map_of obj ''follow'' = Some (JBool True)),
     mon_severity_floor = (if map_of obj ''severity_floor'' = None then SeverityInfo else string_or_empty obj ''severity_floor''),
     mon_batch_size = word_of_int (int_of obj ''batch_size'' 20),
     mon_max_event_bytes = word_of_int (int_of obj ''max_event_bytes'' 262144),
     mon_interval = seconds (int_of obj ''interval'' 60),
     mon_rotate_bytes = word_of_int (int_of obj ''rotate_bytes'' 8388608),
     mon_retention_bytes = word_of_int (int_of obj ''retention_bytes'' 134217728),
     mon_retention_age = seconds (int_of obj ''retention_age'' 0),
     mon_cursor_grace = seconds (int_of obj ''cursor_grace'' 604800),
     mon_idle_timeout = seconds (int_of obj ''idle_timeout'' 300)\<rparr>"

text \<open>The integer fields that are present are written as plain integers.\<close>

definition plain_at :: "(bytes \<times> jval) list \<Rightarrow> bytes \<Rightarrow> bool" where
  "plain_at obj k \<longleftrightarrow> (case map_of obj k of Some (JNumber lexeme) \<Rightarrow> parse_int64 lexeme \<noteq> None | _ \<Rightarrow> True)"

definition plain :: "(bytes \<times> jval) list \<Rightarrow> bool" where
  "plain obj \<longleftrightarrow> list_all (\<lambda>b. plain_at obj (fst b)) int_bounds"

lemma optional_int:
  assumes "int_field_ok obj (k, lo, hi)"
  shows "plain_at obj k \<Longrightarrow> optional_field obj k d mustInt64 =
      Inr (case map_of obj k of None \<Rightarrow> d | Some _ \<Rightarrow> word_of_int (int_of obj k 0))"
    and "optional_field obj k d mustInt64 = Inr x \<Longrightarrow> plain_at obj k"
proof -
  show "optional_field obj k d mustInt64 = Inr (case map_of obj k of None \<Rightarrow> d | Some _ \<Rightarrow> word_of_int (int_of obj k 0))"
    if p: "plain_at obj k"
  proof (cases "map_of obj k")
    case (Some v)
    then obtain lexeme n where v: "v = JNumber lexeme" "json_integer lexeme = Some n"
      using assms by (auto simp: int_field_ok_def split: jval.splits option.splits)
    obtain m where m: "parse_int64 lexeme = Some m" using p Some v by (auto simp: plain_at_def)
    then have "m = n" using v(2) parse_int64_json by blast
    then show ?thesis
      using Some v m by (simp add: optional_field_def mustInt64_def int_of_def)
  qed (simp add: optional_field_def)
  show "plain_at obj k" if "optional_field obj k d mustInt64 = Inr x"
    using that by (auto simp: optional_field_def plain_at_def mustInt64_def split: option.splits jval.splits)
qed

text \<open>The other two integer conversions go through the same parse.\<close>

lemma optional_via:
  "optional_field obj k d (\<lambda>v. bind_err (mustInt64 v) (\<lambda>n. Inr (g n))) =
    (case map_of obj k of None \<Rightarrow> Inr d | Some _ \<Rightarrow> bind_err (optional_field obj k 0 mustInt64) (\<lambda>n. Inr (g n)))"
  by (simp add: optional_field_def split: option.split)

lemma optional_must:
  assumes "int_field_ok obj (k, lo, hi)" "plain_at obj k"
  shows "optional_field obj k d must_int = Inr (case map_of obj k of None \<Rightarrow> d | Some _ \<Rightarrow> scast (word_of_int (int_of obj k 0) :: 64 word))"
    "optional_field obj k e must_seconds = Inr (case map_of obj k of None \<Rightarrow> e | Some _ \<Rightarrow> word_of_int (int_of obj k 0) * Second)"
  unfolding must_int_def [abs_def] must_seconds_def [abs_def] optional_via optional_int(1) [OF assms]
  by (auto simp: bind_err_def split: option.split)

lemma optional_must_plain:
  "optional_field obj k d must_int = Inr x \<Longrightarrow> plain_at obj k"
  "optional_field obj k e must_seconds = Inr y \<Longrightarrow> plain_at obj k"
  by (auto simp: optional_field_def plain_at_def must_int_def must_seconds_def mustInt64_def bind_err_def
      split: option.splits jval.splits sum.splits)

lemma int_of_bounds:
  assumes "int_field_ok obj (k, lo, hi)" "lo \<le> d" "d \<le> hi"
  shows "lo \<le> int_of obj k d" "int_of obj k d \<le> hi"
  using assms by (auto simp: int_field_ok_def int_of_def split: option.splits jval.splits)

lemma int_of_present: "int_field_ok obj (k, lo, hi) \<Longrightarrow> map_of obj k = Some v \<Longrightarrow> int_of obj k d = int_of obj k d'"
  by (auto simp: int_field_ok_def int_of_def split: option.splits jval.splits)

lemma int_of_absent: "map_of obj k = None \<Longrightarrow> int_of obj k d = d"
  by (simp add: int_of_def)

text \<open>Narrowing to the platform's \<open>int\<close> keeps the value, at any width of at least 32 bits.\<close>

lemma scast_word_of_int:
  assumes "- (2 ^ 63) \<le> n" "n < 2 ^ 63"
  shows "scast (word_of_int n :: 64 word) = (word_of_int n :: 'w::len word)"
proof -
  have "sint (word_of_int n :: 64 word) = n"
    using assms by (simp add: sint_sbintrunc' signed_take_bit_int_eq_self)
  then show ?thesis by (simp add: scast_eq)
qed

lemma monitor_ok_int:
  assumes "monitor_ok obj" "(k, lo, hi) \<in> set int_bounds"
  shows "int_field_ok obj (k, lo, hi)"
  using assms by (auto simp: monitor_ok_def list_all_iff)

lemma int_fields:
  assumes "monitor_ok obj" "(k, lo, hi) \<in> set int_bounds" "plain_at obj k"
  shows "optional_field obj k (word_of_int d) must_int = Inr (word_of_int (int_of obj k d) :: 'w::len word)"
    and "optional_field obj k (word_of_int d) mustInt64 = Inr (word_of_int (int_of obj k d))"
    and "optional_field obj k (seconds d) must_seconds = Inr (seconds (int_of obj k d))"
proof -
  note f = monitor_ok_int [OF assms(1,2)]
  have b: "- (2 ^ 63) \<le> int_of obj k 0" "int_of obj k 0 < 2 ^ 63" if "map_of obj k = Some v" for v
    using that f assms(2) by (auto simp: int_field_ok_def int_of_def int_bounds_def split: option.splits jval.splits)
  show "optional_field obj k (word_of_int d) must_int = Inr (word_of_int (int_of obj k d) :: 'w word)"
    unfolding optional_must(1) [OF f assms(3)]
    using b int_of_present [OF f, of _ 0 d]
    by (auto simp: int_of_absent scast_word_of_int split: option.split)
  show "optional_field obj k (word_of_int d) mustInt64 = Inr (word_of_int (int_of obj k d))"
    unfolding optional_int(1) [OF f assms(3)]
    using int_of_present [OF f, of _ 0 d] by (auto simp: int_of_absent split: option.split)
  have "word_of_int n * Second = seconds n" for n
    by (simp add: seconds_def Second_def)
  then show "optional_field obj k (seconds d) must_seconds = Inr (seconds (int_of obj k d))"
    unfolding optional_must(2) [OF f assms(3)]
    using int_of_present [OF f, of _ 0 d] by (auto simp: int_of_absent split: option.split)
qed

lemma must_string_ok: "string_member obj k p \<Longrightarrow> must_string obj k = Inr (string_or_empty obj k)"
  by (auto simp: string_member_def must_string_def string_or_empty_def member_string_def split: option.splits jval.splits)

lemma must_strings_ok: "list_all is_string vs \<Longrightarrow> must_strings k vs = Inr (map (\<lambda>v. case v of JString s \<Rightarrow> s | _ \<Rightarrow> []) vs)"
  by (induction vs) (auto simp: is_string_def split: jval.splits)

lemma must_string_array_ok:
  assumes "array_member obj k p" "\<And>vs. p vs \<Longrightarrow> list_all is_string vs"
  shows "must_string_array obj k = Inr (strings_of obj k)"
  using assms by (auto simp: array_member_def must_string_array_def strings_of_def must_strings_ok split: option.splits jval.splits)

lemma monitor_ok_fields:
  assumes "monitor_ok obj"
  shows "string_member obj ''name'' (\<lambda>s. slug_pattern s \<and> rune_count s \<le> 128)"
    "array_member obj ''command'' (\<lambda>vs. vs \<noteq> [] \<and> list_all is_string vs)"
    "string_member obj ''description'' (\<lambda>s. 1 \<le> rune_count s)" "string_member obj ''trigger'' trigger_ok"
    "array_member obj ''tiers'' (\<lambda>vs. vs \<noteq> [] \<and> distinct vs \<and> list_all (\<lambda>v. v \<in> JString ` set tier_names) vs)"
    "optional_member obj ''follow'' (\<lambda>v. v = JBool True \<or> v = JBool False)"
    "optional_member obj ''severity_floor'' (\<lambda>v. v \<in> JString ` {SeverityInfo, SeverityWarn, SeverityError})"
  using assms by (simp_all only: monitor_ok_def)

lemma plainD: "plain obj \<Longrightarrow> (k, lo, hi) \<in> set int_bounds \<Longrightarrow> plain_at obj k"
  by (force simp: plain_def list_all_iff)

lemma newMonitor_plain:
  assumes ok: "monitor_ok obj" and pl: "plain obj"
  shows "newMonitor obj = Inr (monitor_of obj)"
proof -
  note f = monitor_ok_fields [OF ok]
  note strings = must_string_ok [OF f(1)] must_string_ok [OF f(3)] must_string_ok [OF f(4)]
  have command: "must_string_array obj ''command'' = Inr (strings_of obj ''command'')"
    using f(2) by (rule must_string_array_ok) simp
  have tiers: "must_string_array obj ''tiers'' = Inr (strings_of obj ''tiers'')"
    using f(5) by (rule must_string_array_ok) (auto simp: list_all_iff is_string_def)
  have follow: "optional_field obj ''follow'' False must_bool = Inr (map_of obj ''follow'' = Some (JBool True))"
    using f(6) by (cases "map_of obj ''follow''") (auto simp: optional_member_def optional_field_def must_bool_def)
  have floor: "optional_field obj ''severity_floor'' DefaultSeverityFloor must_text =
      Inr (if map_of obj ''severity_floor'' = None then SeverityInfo else string_or_empty obj ''severity_floor'')"
    using f(7) by (cases "map_of obj ''severity_floor''")
      (auto simp: optional_member_def optional_field_def must_text_def DefaultSeverityFloor_def string_or_empty_def member_string_def)
  have bounds: "(''batch_size'', 1, 1000) \<in> set int_bounds" "(''max_event_bytes'', 1024, 1048576) \<in> set int_bounds"
    "(''interval'', 5, 86400) \<in> set int_bounds" "(''rotate_bytes'', 65536, 1073741824) \<in> set int_bounds"
    "(''retention_bytes'', 1048576, 1099511627776) \<in> set int_bounds" "(''retention_age'', 3600, 31536000) \<in> set int_bounds"
    "(''cursor_grace'', 3600, 31536000) \<in> set int_bounds" "(''idle_timeout'', 30, 86400) \<in> set int_bounds"
    by (simp_all add: int_bounds_def)
  note i = int_fields [OF ok _ plainD [OF pl]]
  have defaults: "DefaultRotateBytes = word_of_int 8388608" "DefaultRetentionBytes = word_of_int 134217728"
    "DefaultInterval = seconds 60" "0 = seconds 0" "DefaultCursorGrace = seconds 604800" "DefaultIdleTimeout = seconds 300"
    by (simp_all add: DefaultRotateBytes_def DefaultRetentionBytes_def DefaultInterval_def DefaultCursorGrace_def
        DefaultIdleTimeout_def seconds_def Second_def)
  note ints = i(1) [OF bounds(1) bounds(1), of 20] i(1) [OF bounds(2) bounds(2), of 262144]
    i(2) [OF bounds(4) bounds(4), of 8388608] i(2) [OF bounds(5) bounds(5), of 134217728]
    i(3) [OF bounds(3) bounds(3), of 60] i(3) [OF bounds(6) bounds(6), of 0]
    i(3) [OF bounds(7) bounds(7), of 604800] i(3) [OF bounds(8) bounds(8), of 300]
  show ?thesis
    unfolding newMonitor_def monitor_of_def strings command tiers follow floor defaults DefaultBatchSize_def
      DefaultMaxEventBytes_def ints
    by (simp add: bind_err_def)
qed

text \<open>Whatever the object, \<open>newMonitor\<close> returns a monitor or panics; it panics on every field that is not plain.\<close>

definition only_panics :: "('v, 'y) manifest_error + 'a \<Rightarrow> bool" where
  "only_panics x \<longleftrightarrow> (\<forall>e. x = Inl e \<longrightarrow> (\<exists>k. e = ManifestPanic k))"

lemma only_panics_bind: "only_panics x \<Longrightarrow> (\<And>a. only_panics (f a)) \<Longrightarrow> only_panics (bind_err x f)"
  by (auto simp: only_panics_def bind_err_def split: sum.splits)

lemma only_panics_basic:
  "only_panics (Inr a)" "only_panics (must_string obj k)" "only_panics (mustInt64 v)" "only_panics (must_bool v)"
  "only_panics (must_text v)"
  by (auto simp: only_panics_def must_string_def mustInt64_def must_bool_def must_text_def split: option.splits jval.splits)

lemma only_panics_strings: "only_panics (must_strings k vs)"
  by (induction vs) (auto simp: only_panics_def split: jval.splits sum.splits)

lemma only_panics_array: "only_panics (must_string_array obj k)"
  using only_panics_strings by (auto simp: must_string_array_def only_panics_def split: option.splits jval.splits)

lemma only_panics_optional: "(\<And>v. only_panics (f v)) \<Longrightarrow> only_panics (optional_field obj k d f)"
  by (auto simp: optional_field_def only_panics_basic split: option.split)

lemma only_panics_ints: "only_panics (must_int v)" "only_panics (must_seconds v)"
  by (auto simp: must_int_def must_seconds_def intro!: only_panics_bind only_panics_basic)

lemma newMonitor_panics: "only_panics (newMonitor obj)"
  unfolding newMonitor_def
  by (intro only_panics_bind only_panics_basic only_panics_array only_panics_optional only_panics_ints)

lemma bind_err_InrE:
  assumes "bind_err x f = Inr y"
  obtains a where "x = Inr a" "f a = Inr y"
  using assms by (auto simp: bind_err_def split: sum.splits)

lemma newMonitor_Inr_plain:
  assumes "monitor_ok obj" "newMonitor obj = Inr m"
  shows "plain obj"
proof -
  have b: "int_field_ok obj (''rotate_bytes'', 65536, 1073741824)" "int_field_ok obj (''retention_bytes'', 1048576, 1099511627776)"
    by (intro monitor_ok_int [OF assms(1)]; simp add: int_bounds_def)+
  have "plain_at obj ''batch_size'' \<and> plain_at obj ''max_event_bytes'' \<and> plain_at obj ''rotate_bytes''
    \<and> plain_at obj ''retention_bytes'' \<and> plain_at obj ''interval'' \<and> plain_at obj ''retention_age''
    \<and> plain_at obj ''cursor_grace'' \<and> plain_at obj ''idle_timeout''"
    using assms(2) unfolding newMonitor_def
    by (elim bind_err_InrE) (intro conjI; erule optional_must_plain optional_int(2) [OF b(1)] optional_int(2) [OF b(2)])
  then show ?thesis
    by (simp add: plain_def int_bounds_def)
qed

lemma newMonitor_cases:
  fixes r :: "('v, 'y) manifest_error + 'w::len word monitor"
  assumes "monitor_ok obj" "newMonitor obj = r"
  shows "plain obj \<and> r = Inr (monitor_of obj) \<or> \<not> plain obj \<and> (\<exists>k. r = Inl (ManifestPanic k))"
proof (cases "plain obj")
  case True
  then show ?thesis using newMonitor_plain [OF assms(1)] assms(2) by blast
next
  case False
  then have "newMonitor obj \<noteq> (Inr m :: ('v, 'y) manifest_error + 'w word monitor)" for m
    using newMonitor_Inr_plain [OF assms(1)] by blast
  then obtain e where "r = Inl e" using assms(2) by (cases r) auto
  moreover have "only_panics r" unfolding assms(2) [symmetric] by (rule newMonitor_panics)
  ultimately show ?thesis using False by (auto simp: only_panics_def)
qed

section \<open>Loading validated entries\<close>

lemma monitor_of_name:
  assumes "monitor_ok obj"
  shows "validate_slug role (mon_name (monitor_of obj)) = None"
    "map ascii_lower (mon_name (monitor_of obj)) = mon_name (monitor_of obj)"
    "map_of obj ''name'' = Some (JString (mon_name (monitor_of obj)))"
proof -
  obtain s where s: "member_string obj ''name'' = Some s" "slug_pattern s" "rune_count s \<le> 128"
    using monitor_ok_fields(1) [OF assms] by (auto simp: string_member_def split: option.splits)
  then have n: "mon_name (monitor_of obj) = s" by (simp add: monitor_of_def string_or_empty_def)
  show "validate_slug role (mon_name (monitor_of obj)) = None"
    using s by (simp add: n validate_slug_accepts slug_pattern_rune_count MaxSlugLen_def)
  show "map ascii_lower (mon_name (monitor_of obj)) = mon_name (monitor_of obj)"
    unfolding n by (intro map_idI slug_rest_lower slug_pattern_all [OF s(2)])
  show "map_of obj ''name'' = Some (JString (mon_name (monitor_of obj)))"
    using s(1) unfolding n by (simp add: member_string_def split: option.splits jval.splits)
qed

lemma load_entries_step:
  fixes acc :: "'w::len word monitor list"
  assumes "monitor_ok obj"
  defines "m \<equiv> monitor_of obj :: 'w word monitor"
  shows "(load_entries seen acc (JObject obj # es) :: ('v, 'y) manifest_error + _) =
    (case newMonitor obj :: ('v, 'y) manifest_error + 'w word monitor of
       Inl e \<Rightarrow> Inl e
     | Inr _ \<Rightarrow>
         if rotate_exceeds m then Inl (RotateRatio (mon_name m) (mon_rotate_bytes m) (mon_retention_bytes m))
         else (case seen (mon_name m) of
                 Some prior \<Rightarrow> Inl (DuplicateSource (mon_name m) prior)
               | None \<Rightarrow> load_entries (seen(mon_name m \<mapsto> mon_name m)) (acc @ [m]) es))"
proof -
  have c: "plain obj \<and> newMonitor obj = (Inr m :: ('v, 'y) manifest_error + 'w word monitor)
      \<or> (\<exists>k. newMonitor obj = (Inl (ManifestPanic k) :: ('v, 'y) manifest_error + 'w word monitor))"
    unfolding m_def using newMonitor_cases [OF assms(1) refl] by blast
  have n: "validate_slug ''source name'' (mon_name m) = None" "map ascii_lower (mon_name m) = mon_name m"
    unfolding m_def by (rule monitor_of_name [OF assms(1)])+
  show ?thesis
    using c by (elim disjE conjE exE) (simp_all add: n Let_def)
qed

lemma load_entries_Inr:
  fixes acc ms :: "'w::len word monitor list"
  assumes "list_all monitor_ok objs"
  shows "load_entries seen acc (map JObject objs) = (Inr ms :: ('v, 'y) manifest_error + _) \<longleftrightarrow>
    list_all plain objs \<and> ms = acc @ map monitor_of objs
    \<and> list_all (\<lambda>obj. \<not> rotate_exceeds (monitor_of obj :: 'w word monitor)) objs
    \<and> distinct (map (\<lambda>obj. mon_name (monitor_of obj :: 'w word monitor)) objs)
    \<and> (\<forall>obj \<in> set objs. seen (mon_name (monitor_of obj :: 'w word monitor)) = None)"
  using assms
proof (induction objs arbitrary: seen acc)
  case Nil
  then show ?case by auto
next
  case (Cons obj objs)
  let ?m = "monitor_of obj :: 'w word monitor"
  have ok: "monitor_ok obj" "list_all monitor_ok objs" using Cons.prems by simp_all
  have step: "(load_entries seen acc (map JObject (obj # objs)) :: ('v, 'y) manifest_error + _) =
    (case newMonitor obj :: ('v, 'y) manifest_error + 'w word monitor of
       Inl e \<Rightarrow> Inl e
     | Inr _ \<Rightarrow>
         if rotate_exceeds ?m then Inl (RotateRatio (mon_name ?m) (mon_rotate_bytes ?m) (mon_retention_bytes ?m))
         else (case seen (mon_name ?m) of
                 Some prior \<Rightarrow> Inl (DuplicateSource (mon_name ?m) prior)
               | None \<Rightarrow> load_entries (seen(mon_name ?m \<mapsto> mon_name ?m)) (acc @ [?m]) (map JObject objs)))"
    by (simp only: list.map load_entries_step [OF ok(1)])
  consider (good) "plain obj" "newMonitor obj = (Inr ?m :: ('v, 'y) manifest_error + _)"
    | (panic) k where "\<not> plain obj" "newMonitor obj = (Inl (ManifestPanic k) :: ('v, 'y) manifest_error + 'w word monitor)"
    using newMonitor_cases [OF ok(1) refl] by blast
  then show ?case
  proof cases
    case panic
    then show ?thesis unfolding step by simp
  next
    case good
    show ?thesis
    proof (cases "seen (mon_name ?m) = None \<and> \<not> rotate_exceeds ?m")
      case True
      have "(\<forall>o' \<in> set objs. (seen(mon_name ?m \<mapsto> mon_name ?m)) (mon_name (monitor_of o' :: 'w word monitor)) = None) \<longleftrightarrow>
          mon_name ?m \<notin> (\<lambda>o'. mon_name (monitor_of o' :: 'w word monitor)) ` set objs
          \<and> (\<forall>o' \<in> set objs. seen (mon_name (monitor_of o' :: 'w word monitor)) = None)"
        by auto (metis (mono_tags, lifting) imageI)
      note ih = Cons.IH [OF ok(2), of "seen(mon_name ?m \<mapsto> mon_name ?m)" "acc @ [?m]", unfolded this]
      show ?thesis
        unfolding step using True good by (simp add: ih) blast
    next
      case False
      then show ?thesis
        unfolding step using good by (auto split: option.splits)
    qed
  qed
qed

lemma load_entries_panic:
  fixes acc :: "'w::len word monitor list"
  assumes "list_all monitor_ok objs"
    and "load_entries seen acc (map JObject objs) = (Inl (ManifestPanic k) :: ('v, 'y) manifest_error + _)"
  shows "\<exists>obj \<in> set objs. \<not> plain obj"
  using assms
proof (induction objs arbitrary: seen acc)
  case (Cons obj objs)
  have ok: "monitor_ok obj" "list_all monitor_ok objs" using Cons.prems(1) by simp_all
  show ?case
  proof (cases "plain obj")
    case True
    then have "newMonitor obj = (Inr (monitor_of obj) :: ('v, 'y) manifest_error + 'w word monitor)"
      using newMonitor_plain [OF ok(1)] by blast
    then have "\<exists>seen acc. load_entries seen acc (map JObject objs) = (Inl (ManifestPanic k) :: ('v, 'y) manifest_error + 'w word monitor list)"
      using Cons.prems(2) unfolding list.map load_entries_step [OF ok(1)]
      by (auto split: option.splits if_splits)
    then show ?thesis using Cons.IH [OF ok(2)] by auto
  qed simp
qed simp

lemma manifest_ok_objects: "manifest_ok v \<longleftrightarrow> (\<exists>objs. v = JArray (map JObject objs) \<and> list_all monitor_ok objs)"
proof
  assume "manifest_ok v"
  then obtain vs where v: "v = JArray vs" and all: "list_all (\<lambda>v. case v of JObject obj \<Rightarrow> monitor_ok obj | _ \<Rightarrow> False) vs"
    by (cases v) auto
  have "\<exists>objs. vs = map JObject objs \<and> list_all monitor_ok objs"
    using all
  proof (induction vs)
    case (Cons w vs)
    then obtain obj objs where "w = JObject obj" "monitor_ok obj" "vs = map JObject objs" "list_all monitor_ok objs"
      by (auto split: jval.splits)
    then show ?case by (intro exI [of _ "obj # objs"]) simp
  qed simp
  then show "\<exists>objs. v = JArray (map JObject objs) \<and> list_all monitor_ok objs" using v by blast
qed (auto simp: list_all_iff)

text \<open>The interface to the validator: what it accepts loads, entry by entry.\<close>

lemma ParseManifest_validated:
  fixes validate :: "'s \<Rightarrow> jval \<Rightarrow> 'v option" and decode :: "bytes \<Rightarrow> nat \<Rightarrow> 'y decoded"
  assumes "manifest_implemented validate S" "decode data 0 = Document doc" "doc \<noteq> YNil" "decode data 1 = EndOfStream"
    and "(yamlToJSON doc :: ('v, 'y) manifest_error + jval) = Inr (JArray (map JObject objs))" "list_all monitor_ok objs"
  shows "ParseManifest decode validate S data = load_entries Map.empty [] (map JObject objs)"
proof -
  have "manifest_ok (JArray (map JObject objs))"
    using assms(6) manifest_ok_objects by blast
  then have "validate (manifestSchema S) (JArray (map JObject objs)) = None"
    using assms(1) by (simp add: manifest_implemented_def)
  then show ?thesis
    using assms(2-5) by (simp add: ParseManifest_def bind_err_def)
qed

lemma ParseManifest_loads:
  fixes validate :: "'s \<Rightarrow> jval \<Rightarrow> 'v option" and decode :: "bytes \<Rightarrow> nat \<Rightarrow> 'y decoded"
    and r :: "('v, 'y) manifest_error + 'w::len word monitor list"
  assumes "manifest_implemented validate S" "ParseManifest decode validate S data = r"
    and "(\<exists>ms. r = Inr ms) \<or> (\<exists>k. r = Inl (ManifestPanic k))"
  obtains doc objs where "decode data 0 = Document doc" "doc \<noteq> YNil" "decode data 1 = EndOfStream"
    "(yamlToJSON doc :: ('v, 'y) manifest_error + jval) = Inr (JArray (map JObject objs))" "list_all monitor_ok objs"
    "r = load_entries Map.empty [] (map JObject objs)"
proof -
  have np: "(yamlToJSON doc :: ('v, 'y) manifest_error + jval) \<noteq> Inl (ManifestPanic k)" for doc k
    by (rule yamlToJSON_no_panic)
  obtain doc jv where d: "decode data 0 = Document doc" "doc \<noteq> YNil" "decode data 1 = EndOfStream"
    "(yamlToJSON doc :: ('v, 'y) manifest_error + jval) = Inr jv" "validate (manifestSchema S) jv = None"
    using assms(2,3) np
    by (auto simp: ParseManifest_def bind_err_def split: decoded.splits if_splits sum.splits option.splits)
  then obtain objs where o: "jv = JArray (map JObject objs)" "list_all monitor_ok objs"
    using assms(1) manifest_ok_objects by (auto simp: manifest_implemented_def)
  have "ParseManifest decode validate S data
      = (load_entries Map.empty [] (map JObject objs) :: ('v, 'y) manifest_error + 'w word monitor list)"
    by (rule ParseManifest_validated [where decode = decode and data = data and doc = doc, OF assms(1) d(1-3) d(4) [unfolded o(1)] o(2)])
  then show ?thesis
    using d o assms(2) by (intro that [of doc objs]) simp_all
qed

section \<open>Bounds of a loaded monitor\<close>

lemma sint_seconds: "0 \<le> n \<Longrightarrow> n \<le> 31536000 \<Longrightarrow> sint (seconds n) = n * 1000000000"
  unfolding seconds_def by (rule sint_64) simp_all

text \<open>
  The bounds that \<open>docs/event-contract.md\<close> sets for the fields of an entry, on the values a monitor holds;
  a retention age of 0 is the absent one.
\<close>

definition monitor_bounds :: "'w::len word monitor \<Rightarrow> bool" where
  "monitor_bounds m \<longleftrightarrow>
    1 \<le> sint (mon_batch_size m) \<and> sint (mon_batch_size m) \<le> 1000
    \<and> 1024 \<le> sint (mon_max_event_bytes m) \<and> sint (mon_max_event_bytes m) \<le> CeilingMaxEventBytes
    \<and> sint MinInterval \<le> sint (mon_interval m) \<and> sint (mon_interval m) \<le> 86400 * sint Second
    \<and> 65536 \<le> sint (mon_rotate_bytes m) \<and> sint (mon_rotate_bytes m) \<le> 2 ^ 30
    \<and> 1048576 \<le> sint (mon_retention_bytes m) \<and> sint (mon_retention_bytes m) \<le> 2 ^ 40
    \<and> (sint (mon_retention_age m) = 0 \<or> 3600 * sint Second \<le> sint (mon_retention_age m))
    \<and> sint (mon_retention_age m) \<le> 31536000 * sint Second
    \<and> 3600 * sint Second \<le> sint (mon_cursor_grace m) \<and> sint (mon_cursor_grace m) \<le> 31536000 * sint Second
    \<and> 30 * sint Second \<le> sint (mon_idle_timeout m) \<and> sint (mon_idle_timeout m) \<le> 86400 * sint Second"

lemma sint_constants: "sint Second = 1000000000" "sint MinInterval = 5000000000"
  by (simp_all add: Second_def MinInterval_def)

text \<open>
  The value of an integer field of an entry: what is written there, read as the schema reads it, and the
  contract's default if it is absent. A monitor carries an entry when each of its numbers,
  read back at its own width, is that value, in nanoseconds for a duration.
\<close>

definition declares :: "(bytes \<times> jval) list \<Rightarrow> bytes \<Rightarrow> int \<Rightarrow> int \<Rightarrow> bool" where
  "declares obj k d n \<longleftrightarrow>
    (case map_of obj k of
       None \<Rightarrow> n = d
     | Some v \<Rightarrow> (case v of JNumber lexeme \<Rightarrow> json_integer lexeme = Some n | _ \<Rightarrow> False))"

definition carries :: "(bytes \<times> jval) list \<Rightarrow> 'w::len word monitor \<Rightarrow> bool" where
  "carries obj m \<longleftrightarrow>
    map_of obj ''name'' = Some (JString (mon_name m))
    \<and> declares obj ''batch_size'' 20 (sint (mon_batch_size m))
    \<and> declares obj ''max_event_bytes'' 262144 (sint (mon_max_event_bytes m))
    \<and> declares obj ''rotate_bytes'' 8388608 (sint (mon_rotate_bytes m))
    \<and> declares obj ''retention_bytes'' 134217728 (sint (mon_retention_bytes m))
    \<and> list_all (\<lambda>(k, d, t). sint t mod 1000000000 = 0 \<and> declares obj k d (sint t div 1000000000))
        [(''interval'', 60, mon_interval m), (''retention_age'', 0, mon_retention_age m),
         (''cursor_grace'', 604800, mon_cursor_grace m), (''idle_timeout'', 300, mon_idle_timeout m)]"

lemma declares_int_of: "int_field_ok obj (k, lo, hi) \<Longrightarrow> declares obj k d (int_of obj k d)"
  by (auto simp: declares_def int_field_ok_def int_of_def split: option.splits jval.splits)

text \<open>The integers of a valid entry, and what the built monitor makes of them.\<close>

lemma int_of_ranges:
  assumes "monitor_ok obj"
  shows "1 \<le> int_of obj ''batch_size'' 20" "int_of obj ''batch_size'' 20 \<le> 1000"
    and "1024 \<le> int_of obj ''max_event_bytes'' 262144" "int_of obj ''max_event_bytes'' 262144 \<le> 1048576"
    and "5 \<le> int_of obj ''interval'' 60" "int_of obj ''interval'' 60 \<le> 86400"
    and "65536 \<le> int_of obj ''rotate_bytes'' 8388608" "int_of obj ''rotate_bytes'' 8388608 \<le> 1073741824"
    and "1048576 \<le> int_of obj ''retention_bytes'' 134217728" "int_of obj ''retention_bytes'' 134217728 \<le> 1099511627776"
    and "int_of obj ''retention_age'' 0 = 0 \<or> 3600 \<le> int_of obj ''retention_age'' 0"
    "0 \<le> int_of obj ''retention_age'' 0" "int_of obj ''retention_age'' 0 \<le> 31536000"
    and "3600 \<le> int_of obj ''cursor_grace'' 604800" "int_of obj ''cursor_grace'' 604800 \<le> 31536000"
    and "30 \<le> int_of obj ''idle_timeout'' 300" "int_of obj ''idle_timeout'' 300 \<le> 86400"
proof -
  note b = int_of_bounds [OF monitor_ok_int [OF assms]]
  show "1 \<le> int_of obj ''batch_size'' 20" "int_of obj ''batch_size'' 20 \<le> 1000"
    using b [of "''batch_size''" 1 1000 20] by (simp_all add: int_bounds_def)
  show "1024 \<le> int_of obj ''max_event_bytes'' 262144" "int_of obj ''max_event_bytes'' 262144 \<le> 1048576"
    using b [of "''max_event_bytes''" 1024 1048576 262144] by (simp_all add: int_bounds_def)
  show "5 \<le> int_of obj ''interval'' 60" "int_of obj ''interval'' 60 \<le> 86400"
    using b [of "''interval''" 5 86400 60] by (simp_all add: int_bounds_def)
  show "65536 \<le> int_of obj ''rotate_bytes'' 8388608" "int_of obj ''rotate_bytes'' 8388608 \<le> 1073741824"
    using b [of "''rotate_bytes''" 65536 1073741824 8388608] by (simp_all add: int_bounds_def)
  show "1048576 \<le> int_of obj ''retention_bytes'' 134217728" "int_of obj ''retention_bytes'' 134217728 \<le> 1099511627776"
    using b [of "''retention_bytes''" 1048576 1099511627776 134217728] by (simp_all add: int_bounds_def)
  show "int_of obj ''retention_age'' 0 = 0 \<or> 3600 \<le> int_of obj ''retention_age'' 0"
    "0 \<le> int_of obj ''retention_age'' 0" "int_of obj ''retention_age'' 0 \<le> 31536000"
    using monitor_ok_int [OF assms, of "''retention_age''" 3600 31536000]
    by (auto simp: int_bounds_def int_field_ok_def int_of_def split: option.splits jval.splits)
  show "3600 \<le> int_of obj ''cursor_grace'' 604800" "int_of obj ''cursor_grace'' 604800 \<le> 31536000"
    using b [of "''cursor_grace''" 3600 31536000 604800] by (simp_all add: int_bounds_def)
  show "30 \<le> int_of obj ''idle_timeout'' 300" "int_of obj ''idle_timeout'' 300 \<le> 86400"
    using b [of "''idle_timeout''" 30 86400 300] by (simp_all add: int_bounds_def)
qed

lemma monitor_of_ints:
  fixes obj :: "(bytes \<times> jval) list"
  assumes "monitor_ok obj" "32 \<le> LENGTH('w::len)"
  defines "m \<equiv> monitor_of obj :: 'w word monitor"
  shows "sint (mon_batch_size m) = int_of obj ''batch_size'' 20"
    and "sint (mon_max_event_bytes m) = int_of obj ''max_event_bytes'' 262144"
    and "sint (mon_rotate_bytes m) = int_of obj ''rotate_bytes'' 8388608"
    and "sint (mon_retention_bytes m) = int_of obj ''retention_bytes'' 134217728"
    and "sint (mon_interval m) = int_of obj ''interval'' 60 * 1000000000"
    and "sint (mon_retention_age m) = int_of obj ''retention_age'' 0 * 1000000000"
    and "sint (mon_cursor_grace m) = int_of obj ''cursor_grace'' 604800 * 1000000000"
    and "sint (mon_idle_timeout m) = int_of obj ''idle_timeout'' 300 * 1000000000"
  unfolding m_def monitor_of_def monitor.select_convs
  by (rule sint_small sint_64 sint_seconds; use int_of_ranges [OF assms(1)] assms(2) in simp; fail)+

lemma monitor_of_bounds:
  assumes "monitor_ok obj" "32 \<le> LENGTH('w::len)"
  shows "monitor_bounds (monitor_of obj :: 'w word monitor)"
  unfolding monitor_bounds_def monitor_of_ints [OF assms] sint_constants CeilingMaxEventBytes_def
  using int_of_ranges [OF assms(1)] by simp

lemma monitor_of_carries:
  assumes "monitor_ok obj" "32 \<le> LENGTH('w::len)"
  shows "carries obj (monitor_of obj :: 'w word monitor)"
proof -
  have "declares obj k d (int_of obj k d)" if "(k, lo, hi) \<in> set int_bounds" for k d lo hi
    by (rule declares_int_of [OF monitor_ok_int [OF assms(1) that]])
  then have d: "declares obj ''batch_size'' 20 (int_of obj ''batch_size'' 20)"
    "declares obj ''max_event_bytes'' 262144 (int_of obj ''max_event_bytes'' 262144)"
    "declares obj ''interval'' 60 (int_of obj ''interval'' 60)"
    "declares obj ''rotate_bytes'' 8388608 (int_of obj ''rotate_bytes'' 8388608)"
    "declares obj ''retention_bytes'' 134217728 (int_of obj ''retention_bytes'' 134217728)"
    "declares obj ''retention_age'' 0 (int_of obj ''retention_age'' 0)"
    "declares obj ''cursor_grace'' 604800 (int_of obj ''cursor_grace'' 604800)"
    "declares obj ''idle_timeout'' 300 (int_of obj ''idle_timeout'' 300)"
    by (simp_all add: int_bounds_def)
  have "map_of obj ''name'' = Some (JString (mon_name (monitor_of obj :: 'w word monitor)))"
    by (rule monitor_of_name(3) [OF assms(1)])
  then show ?thesis
    unfolding carries_def using d by (simp add: monitor_of_ints [OF assms])
qed

section \<open>Properties\<close>

text \<open>
  C28. What \<open>ParseManifest\<close> accepts, exactly: one YAML document, whose JSON form the schema admits, whose
  integers are written plainly, whose sources respect the rotation ratio and have distinct names. The result
  is then every entry in order, with each declared value and the contract's default for each absent one.
\<close>

theorem ParseManifest_accepts:
  fixes validate :: "'s \<Rightarrow> jval \<Rightarrow> 'v option" and decode :: "bytes \<Rightarrow> nat \<Rightarrow> 'y decoded" and ms :: "'w::len word monitor list"
  assumes "manifest_implemented validate S"
  shows "ParseManifest decode validate S data = Inr ms \<longleftrightarrow>
    (\<exists>doc objs. decode data 0 = Document doc \<and> doc \<noteq> YNil \<and> decode data 1 = EndOfStream
      \<and> (yamlToJSON doc :: ('v, 'y) manifest_error + jval) = Inr (JArray (map JObject objs))
      \<and> list_all monitor_ok objs \<and> list_all plain objs
      \<and> ms = map monitor_of objs \<and> list_all (\<lambda>m. \<not> rotate_exceeds m) ms \<and> distinct (map mon_name ms))"
    (is "?lhs \<longleftrightarrow> ?rhs")
proof
  assume run: ?lhs
  obtain doc objs where d: "decode data 0 = Document doc" "doc \<noteq> YNil" "decode data 1 = EndOfStream"
    "(yamlToJSON doc :: ('v, 'y) manifest_error + jval) = Inr (JArray (map JObject objs))" "list_all monitor_ok objs"
    "(Inr ms :: ('v, 'y) manifest_error + 'w word monitor list) = load_entries Map.empty [] (map JObject objs)"
    by (rule ParseManifest_loads [OF assms run]) blast+
  have "list_all plain objs \<and> ms = map monitor_of objs
      \<and> list_all (\<lambda>obj. \<not> rotate_exceeds (monitor_of obj :: 'w word monitor)) objs
      \<and> distinct (map (\<lambda>obj. mon_name (monitor_of obj :: 'w word monitor)) objs)"
    using d(6) [symmetric] unfolding load_entries_Inr [OF d(5)] by simp
  then show ?rhs
    using d(1-5) by (intro exI [of _ doc] exI [of _ objs]) (simp add: list_all_iff comp_def)
next
  assume ?rhs
  then obtain doc objs where d: "decode data 0 = Document doc" "doc \<noteq> YNil" "decode data 1 = EndOfStream"
    "(yamlToJSON doc :: ('v, 'y) manifest_error + jval) = Inr (JArray (map JObject objs))" "list_all monitor_ok objs"
    and r: "list_all plain objs" "ms = map monitor_of objs" "list_all (\<lambda>m. \<not> rotate_exceeds m) ms" "distinct (map mon_name ms)"
    by blast
  have "load_entries Map.empty [] (map JObject objs) = (Inr ms :: ('v, 'y) manifest_error + 'w word monitor list)"
    unfolding load_entries_Inr [OF d(5)] using r by (simp add: list_all_iff comp_def)
  then show ?lhs
    by (rule trans [OF ParseManifest_validated [where decode = decode and data = data and doc = doc, OF assms d]])
qed

lemma loaded_monitors:
  fixes validate :: "'s \<Rightarrow> jval \<Rightarrow> 'v option" and decode :: "bytes \<Rightarrow> nat \<Rightarrow> 'y decoded" and ms :: "'w::len word monitor list"
  assumes "manifest_implemented validate S" "32 \<le> LENGTH('w)"
    and "ParseManifest decode validate S data = Inr ms"
  shows "distinct (map mon_name ms)
    \<and> list_all (\<lambda>m. validate_slug ''source name'' (mon_name m) = None \<and> monitor_bounds m
        \<and> 2 * sint (mon_rotate_bytes m) \<le> sint (mon_retention_bytes m)) ms"
proof -
  obtain doc objs where d: "list_all monitor_ok objs"
    "(Inr ms :: ('v, 'y) manifest_error + 'w word monitor list) = load_entries Map.empty [] (map JObject objs)"
    by (rule ParseManifest_loads [OF assms(1,3)]) blast+
  have r: "ms = map monitor_of objs" "list_all (\<lambda>obj. \<not> rotate_exceeds (monitor_of obj :: 'w word monitor)) objs"
    "distinct (map (\<lambda>obj. mon_name (monitor_of obj :: 'w word monitor)) objs)"
    using d(2) [symmetric] unfolding load_entries_Inr [OF d(1)] by simp_all
  have ratio: "2 * sint (mon_rotate_bytes m) \<le> sint (mon_retention_bytes m)"
    if "\<not> rotate_exceeds m" "monitor_bounds m" for m :: "'w word monitor"
  proof -
    have "sint (mon_rotate_bytes m) \<le> sint (mon_retention_bytes m) div 2"
      using that by (simp add: rotate_exceeds_def monitor_bounds_def signed_divide_int_def)
    then show ?thesis by simp
  qed
  have "validate_slug ''source name'' (mon_name m) = None \<and> monitor_bounds m
      \<and> 2 * sint (mon_rotate_bytes m) \<le> sint (mon_retention_bytes m)"
    if "obj \<in> set objs" "m = (monitor_of obj :: 'w word monitor)" for obj m
  proof -
    have "monitor_ok obj" "\<not> rotate_exceeds m" using that d(1) r(2) by (simp_all add: list_all_iff)
    moreover from this(1) have "validate_slug ''source name'' (mon_name m) = None" "monitor_bounds m"
      unfolding that(2) by (rule monitor_of_name(1), rule monitor_of_bounds [OF _ assms(2)])
    ultimately show ?thesis using ratio by blast
  qed
  then show ?thesis
    using r(1,3) by (simp add: list_all_iff comp_def)
qed

lemma loaded_values:
  fixes validate :: "'s \<Rightarrow> jval \<Rightarrow> 'v option" and decode :: "bytes \<Rightarrow> nat \<Rightarrow> 'y decoded" and ms :: "'w::len word monitor list"
  assumes "manifest_implemented validate S" "32 \<le> LENGTH('w)"
    and "ParseManifest decode validate S data = Inr ms"
  shows "\<exists>doc objs. decode data 0 = Document doc
    \<and> (yamlToJSON doc :: ('v, 'y) manifest_error + jval) = Inr (JArray (map JObject objs)) \<and> list_all2 carries objs ms"
proof -
  obtain doc objs where d: "decode data 0 = Document doc"
    "(yamlToJSON doc :: ('v, 'y) manifest_error + jval) = Inr (JArray (map JObject objs))" "list_all monitor_ok objs"
    "(Inr ms :: ('v, 'y) manifest_error + 'w word monitor list) = load_entries Map.empty [] (map JObject objs)"
    by (rule ParseManifest_loads [OF assms(1,3)]) blast+
  have "ms = map monitor_of objs"
    using d(4) [symmetric] unfolding load_entries_Inr [OF d(3)] by simp
  then have "list_all2 carries objs ms"
    using d(3) by (simp add: list_all2_conv_all_nth list_all_length monitor_of_carries [OF _ assms(2)])
  with d(1,2) show ?thesis by blast
qed

text \<open>
  C29. Every monitor of an accepted manifest is fit for use: its name is a valid slug, its integers and
  durations lie within the contract's bounds, retention always leaves a removable segment, and no two
  names coincide. Nothing is lost: there is one monitor per entry of the document, in its order, with its
  name, and each of its numbers, read back from the machine integer it is held in (an \<open>int\<close> of any width of
  at least 32 bits, an \<open>int64\<close>, or a count of nanoseconds), is the one the entry declares or, where it
  declares none, the contract's default.
\<close>

theorem ParseManifest_sound:
  fixes validate :: "'s \<Rightarrow> jval \<Rightarrow> 'v option" and decode :: "bytes \<Rightarrow> nat \<Rightarrow> 'y decoded" and ms :: "'w::len word monitor list"
  assumes "manifest_implemented validate S" "32 \<le> LENGTH('w)"
    and "ParseManifest decode validate S data = Inr ms"
  shows "distinct (map mon_name ms)
    \<and> list_all (\<lambda>m. validate_slug ''source name'' (mon_name m) = None \<and> monitor_bounds m
        \<and> 2 * sint (mon_rotate_bytes m) \<le> sint (mon_retention_bytes m)) ms
    \<and> (\<exists>doc objs. decode data 0 = Document doc
        \<and> (yamlToJSON doc :: ('v, 'y) manifest_error + jval) = Inr (JArray (map JObject objs))
        \<and> list_all2 carries objs ms)"
  using loaded_monitors [OF assms] loaded_values [OF assms] by simp

section \<open>Numbers that panic\<close>

text \<open>A document without floats: every number in its JSON form is written as a plain integer.\<close>

fun float_free :: "yval \<Rightarrow> bool" where
  "float_free (YFloat f) = False"
| "float_free (YSeq vs) = list_all float_free vs"
| "float_free (YMap ms) = list_all (\<lambda>(k, v). float_free v) ms"
| "float_free _ = True"

lemma list_all2_member2: "list_all2 P xs ys \<Longrightarrow> y \<in> set ys \<Longrightarrow> \<exists>x \<in> set xs. P x y"
  by (induction rule: list_all2_induct) auto

lemma yaml_elems_Inr:
  "yaml_elems vs = (Inr out :: ('v, 'y) manifest_error + _)
    \<Longrightarrow> list_all2 (\<lambda>v conv. yamlToJSON v = (Inr conv :: ('v, 'y) manifest_error + _)) vs out"
  by (induction vs arbitrary: out) (auto split: sum.split_asm)

lemma yaml_members_Inr:
  "yaml_members ms = (Inr out :: ('v, 'y) manifest_error + _)
    \<Longrightarrow> list_all2 (\<lambda>(k, v) (k', conv). k = k' \<and> yamlToJSON v = (Inr conv :: ('v, 'y) manifest_error + _)) ms out"
  by (induction ms arbitrary: out) (auto split: sum.split_asm)

lemma yamlToJSON_shape:
  "yamlToJSON y = (Inr (JObject obj) :: ('v, 'y) manifest_error + _)
    \<longleftrightarrow> (\<exists>ms. y = YMap ms \<and> yaml_members ms = (Inr obj :: ('v, 'y) manifest_error + _))"
  "yamlToJSON y = (Inr (JArray out) :: ('v, 'y) manifest_error + _)
    \<longleftrightarrow> (\<exists>vs. y = YSeq vs \<and> yaml_elems vs = (Inr out :: ('v, 'y) manifest_error + _))"
  by (cases y; auto split: sum.splits)+

lemma float_free_number:
  "yamlToJSON y = (Inr (JNumber lexeme) :: ('v, 'y) manifest_error + _) \<Longrightarrow> float_free y \<Longrightarrow> \<exists>n. lexeme = format_int n"
  by (cases y) (auto split: sum.splits)

lemma float_free_member:
  assumes "yaml_members ms = (Inr obj :: ('v, 'y) manifest_error + _)" "list_all (\<lambda>(k, v). float_free v) ms" "map_of obj k = Some (JNumber lexeme)"
  shows "\<exists>n. lexeme = format_int n"
proof -
  have "(k, JNumber lexeme) \<in> set obj" using assms(3) by (rule map_of_SomeD)
  then obtain v where "(k, v) \<in> set ms" and
    "yamlToJSON v = (Inr (JNumber lexeme) :: ('v, 'y) manifest_error + _)"
    using list_all2_member2 [OF yaml_members_Inr [OF assms(1)]] by fastforce
  then show ?thesis
    using float_free_number [of v lexeme] assms(2) by (auto simp: list_all_iff)
qed

lemma float_free_plain:
  assumes "yamlToJSON (YMap ms) = (Inr (JObject obj) :: ('v, 'y) manifest_error + _)" "float_free (YMap ms)" "monitor_ok obj"
  shows "plain obj"
  unfolding plain_def list_all_iff
proof (intro ballI)
  fix b assume "b \<in> set int_bounds"
  then obtain k lo hi where b: "b = (k, lo, hi)" "(k, lo, hi) \<in> set int_bounds" by (metis prod_cases3)
  have w: "int_field_ok obj (k, lo, hi)" by (rule monitor_ok_int [OF assms(3) b(2)])
  have "list_all (\<lambda>(k, lo, hi). 0 \<le> lo \<and> hi < 2 ^ 63) int_bounds" by (simp add: int_bounds_def)
  then have r: "0 \<le> lo" "hi < 2 ^ 63" using b(2) by (auto simp: list_all_iff)
  have "parse_int64 lexeme \<noteq> None" if l: "map_of obj k = Some (JNumber lexeme)" for lexeme
  proof -
    obtain n where n: "lexeme = format_int n"
      using float_free_member [OF _ _ l] assms(1,2) yamlToJSON_shape(1) by fastforce
    then have "lo \<le> n" "n \<le> hi" using w l by (simp_all add: int_field_ok_def)
    then show ?thesis using r n by simp
  qed
  then show "plain_at obj (fst b)" by (simp add: b plain_at_def split: option.split jval.split)
qed

text \<open>
  C30. \<open>ParseManifest\<close> cannot panic on a document without floats: once the schema has admitted it, every
  type assertion holds and every integer parses.
\<close>

theorem ParseManifest_no_panic:
  fixes validate :: "'s \<Rightarrow> jval \<Rightarrow> 'v option" and decode :: "bytes \<Rightarrow> nat \<Rightarrow> 'y decoded"
  assumes "manifest_implemented validate S"
    and "\<And>doc. decode data 0 = Document doc \<Longrightarrow> float_free doc"
  shows "(ParseManifest decode validate S data :: ('v, 'y) manifest_error + 'w::len word monitor list) \<noteq> Inl (ManifestPanic k)"
proof
  assume run: "ParseManifest decode validate S data = (Inl (ManifestPanic k) :: ('v, 'y) manifest_error + 'w word monitor list)"
  obtain doc objs where d: "decode data 0 = Document doc"
    "(yamlToJSON doc :: ('v, 'y) manifest_error + jval) = Inr (JArray (map JObject objs))" "list_all monitor_ok objs"
    "load_entries Map.empty [] (map JObject objs) = (Inl (ManifestPanic k) :: ('v, 'y) manifest_error + 'w word monitor list)"
    by (rule ParseManifest_loads [OF assms(1) run]) (simp, metis)
  obtain obj where obj: "obj \<in> set objs" "\<not> plain obj"
    using load_entries_panic [OF d(3,4)] by blast
  obtain vs where vs: "doc = YSeq vs" "(yaml_elems vs :: ('v, 'y) manifest_error + jval list) = Inr (map JObject objs)"
    using d(2) yamlToJSON_shape(2) by blast
  then obtain y where y: "y \<in> set vs" "(yamlToJSON y :: ('v, 'y) manifest_error + jval) = Inr (JObject obj)"
    using obj(1) list_all2_member2 [OF yaml_elems_Inr [OF vs(2)], of "JObject obj"] by auto
  then obtain ms where "y = YMap ms" using yamlToJSON_shape(1) by blast
  moreover have "float_free y" using assms(2) [OF d(1)] vs(1) y(1) by (simp add: list_all_iff)
  ultimately show False
    using float_free_plain y(2) obj d(3) by (auto simp: list_all_iff)
qed

lemma parse_int64_chars: "parse_int64 s = Some n \<Longrightarrow> c \<in> set s \<Longrightarrow> is_digit c \<or> c = CHR ''-'' \<or> c = CHR ''+''"
  using parse_digits_Some(2)
  by (cases s) (auto simp: parse_int64_def split: if_split_asm option.split_asm)

lemma fmt_e_marks: "CHR ''e'' \<in> set (fmt_e ds dp)"
  by (simp add: fmt_e_def Let_def split: list.split)

lemma exponent_unparsed: "7 \<le> dp \<Longrightarrow> parse_int64 (format_float (Finite neg ds dp)) = None"
proof -
  assume "7 \<le> dp"
  then have "CHR ''e'' \<in> set (format_float (Finite neg ds dp))"
    using fmt_e_marks [of ds dp] by (simp add: format_float_def)
  then show ?thesis
    using parse_int64_chars [of "format_float (Finite neg ds dp)" _ "CHR ''e''"]
    by (cases "parse_int64 (format_float (Finite neg ds dp))") (simp_all add: is_digit_def)
qed

text \<open>
  C31. The number grammars of the schema and of \<open>mustInt64\<close> differ: an integer written as a YAML float of
  at least seven digits (\<open>1e7\<close>, or \<open>8388608.0\<close>) becomes a lexeme with an exponent, which the schema counts as
  an integer within bounds and \<open>ParseInt\<close> refuses. A manifest whose first entry has one panics instead of
  loading or being rejected.
\<close>

theorem ParseManifest_exponent_panics:
  fixes validate :: "'s \<Rightarrow> jval \<Rightarrow> 'v option" and decode :: "bytes \<Rightarrow> nat \<Rightarrow> 'y decoded"
  assumes "manifest_implemented validate S" "decode data 0 = Document doc" "decode data 1 = EndOfStream"
    and "(yamlToJSON doc :: ('v, 'y) manifest_error + jval) = Inr (JArray (map JObject (obj # objs)))"
    and "list_all monitor_ok (obj # objs)"
    and "map_of obj k = Some (JNumber (format_float (Finite neg ds dp)))" "7 \<le> dp" "k \<in> fst ` set int_bounds"
  shows "\<exists>l. (ParseManifest decode validate S data :: ('v, 'y) manifest_error + 'w::len word monitor list)
    = Inl (ManifestPanic l)"
proof -
  have "doc \<noteq> YNil" using assms(4) by auto
  then have "ParseManifest decode validate S data
      = (load_entries Map.empty [] (map JObject (obj # objs)) :: ('v, 'y) manifest_error + 'w word monitor list)"
    by (rule ParseManifest_validated [where decode = decode and data = data, OF assms(1,2) _ assms(3-5)])
  moreover have "\<not> plain_at obj k"
    using assms(6) exponent_unparsed [OF assms(7)] by (simp add: plain_at_def)
  then have "\<not> plain obj" using assms(8) by (auto simp: plain_def list_all_iff)
  then obtain l where "newMonitor obj = (Inl (ManifestPanic l) :: ('v, 'y) manifest_error + 'w word monitor)"
    using newMonitor_cases [of obj "newMonitor obj :: ('v, 'y) manifest_error + 'w word monitor"] assms(5) by auto
  ultimately show ?thesis by simp
qed

section \<open>A sample manifest\<close>

definition reference_manifest :: "bytes \<Rightarrow> jval \<Rightarrow> unit option" where
  "reference_manifest url v = (if manifest_ok v then None else Some ())"

lemma reference_manifest_implements: "manifest_implemented reference_manifest reference_schemas"
  by (simp add: manifest_implemented_def reference_manifest_def)

definition one_document :: "yval \<Rightarrow> bytes \<Rightarrow> nat \<Rightarrow> unit decoded" where
  "one_document doc data n = (if n = 0 then Document doc else EndOfStream)"

definition sample_entry :: "yval \<Rightarrow> (bytes \<times> yval) list" where
  "sample_entry n = [(''name'', YString ''ci''), (''command'', YSeq [YString ''watch'']), (''description'', YString ''CI''),
     (''trigger'', YString ''session-start''), (''tiers'', YSeq [YString ''push'']), (''rotate_bytes'', n)]"

definition sample_monitor :: "bytes \<Rightarrow> (bytes \<times> jval) list" where
  "sample_monitor lexeme = [(''name'', JString ''ci''), (''command'', JArray [JString ''watch'']), (''description'', JString ''CI''),
     (''trigger'', JString ''session-start''), (''tiers'', JArray [JString ''push'']), (''rotate_bytes'', JNumber lexeme)]"

lemma sample_doc_json:
  "yamlToJSON n = (Inr (JNumber lexeme) :: ('v, 'y) manifest_error + jval) \<Longrightarrow>
    yamlToJSON (YSeq [YMap (sample_entry n)]) = (Inr (JArray (map JObject [sample_monitor lexeme])) :: ('v, 'y) manifest_error + jval)"
  by (simp add: sample_entry_def sample_monitor_def)

lemmas small_number_eval = parse_int64_def json_integer_def parse_digits_def signed_exponent_def scaled_integer_def is_digit_def digit_val_def

lemma sample_lexemes:
  "yamlToJSON (YInt 10000000) = Inr (JNumber ''10000000'')"
  "yamlToJSON (YFloat (Finite False [1] 8)) = Inr (JNumber ''1e+07'')"
proof -
  have "format_int 10000000 = ''10000000''"
    by (simp add: format_int_def itoa.simps digit_char_def)
  moreover have "format_float (Finite False [1] 8) = ''1e+07''"
    by (simp add: format_float_def fmt_e_def pad_int_def itoa.simps digit_char_def)
  ultimately show "yamlToJSON (YInt 10000000) = Inr (JNumber ''10000000'')"
    "yamlToJSON (YFloat (Finite False [1] 8)) = Inr (JNumber ''1e+07'')"
    by simp_all
qed

lemma sample_numbers:
  "json_integer ''10000000'' = Some 10000000" "json_integer ''1e+07'' = Some 10000000"
  "parse_int64 ''10000000'' = Some 10000000" "parse_int64 ''1e+07'' = None"
  by (simp_all add: small_number_eval)

lemma sample_monitor_ok:
  assumes "json_integer lexeme = Some 10000000"
  shows "monitor_ok (sample_monitor lexeme)"
proof -
  have a: "list_all (int_field_ok (sample_monitor lexeme)) int_bounds"
    using assms by (simp add: int_bounds_def int_field_ok_def sample_monitor_def)
  have b: "list_all (\<lambda>p. fst p \<in> set monitor_keys) (sample_monitor lexeme)"
    by (simp add: monitor_keys_def int_bounds_def sample_monitor_def)
  show ?thesis
    unfolding monitor_ok_def using a b
    by (simp add: sample_monitor_def string_member_def member_string_def array_member_def optional_member_def
       is_string_def trigger_ok_def tier_names_def TierPush_def slug_first_def slug_rest_def rune_count_def ascii_valid)
qed

lemma sample_monitor_plain: "plain (sample_monitor ''10000000'')"
  using sample_numbers(3) by (simp add: plain_def int_bounds_def plain_at_def sample_monitor_def)

abbreviation sample_manifest :: "yval \<Rightarrow> yval" where
  "sample_manifest n \<equiv> YSeq [YMap (sample_entry n)]"

lemma sample_ratio: "\<not> rotate_exceeds (monitor_of (sample_monitor ''10000000'') :: 32 word monitor)"
  using sample_numbers(1)
  by (simp add: rotate_exceeds_def monitor_of_def int_of_def sample_monitor_def signed_divide_int_def)

text \<open>The sample loads on a platform whose \<open>int\<close> has 32 bits.\<close>

lemma sample_loads:
  "ParseManifest (one_document (sample_manifest (YInt 10000000))) reference_manifest reference_schemas []
    = (Inr [monitor_of (sample_monitor ''10000000'')] :: (unit, unit) manifest_error + 32 word monitor list)"
proof -
  have ok: "list_all monitor_ok [sample_monitor ''10000000'']"
    using sample_monitor_ok [OF sample_numbers(1)] by simp
  have "load_entries Map.empty [] (map JObject [sample_monitor ''10000000''])
      = (Inr [monitor_of (sample_monitor ''10000000'')] :: (unit, unit) manifest_error + 32 word monitor list)"
    unfolding load_entries_Inr [OF ok] using sample_monitor_plain sample_ratio by simp
  moreover have "ParseManifest (one_document (sample_manifest (YInt 10000000))) reference_manifest reference_schemas []
      = (load_entries Map.empty [] (map JObject [sample_monitor ''10000000'']) :: (unit, unit) manifest_error + 32 word monitor list)"
    by (rule ParseManifest_validated [where doc = "sample_manifest (YInt 10000000)",
          OF reference_manifest_implements _ _ _ sample_doc_json [OF sample_lexemes(1)] ok])
      (simp_all add: one_document_def)
  ultimately show ?thesis by simp
qed

theorem ParseManifest_accepts_witness:
  "\<exists>doc objs. one_document (sample_manifest (YInt 10000000)) [] 0 = Document doc
    \<and> (yamlToJSON doc :: (unit, unit) manifest_error + jval) = Inr (JArray (map JObject objs))
    \<and> list_all monitor_ok objs \<and> list_all plain objs \<and> length objs = 1"
  using sample_loads [unfolded ParseManifest_accepts [OF reference_manifest_implements]]
  by (elim exE conjE) (drule arg_cong [where f = length], auto)

theorem ParseManifest_sound_witness:
  "monitor_bounds (monitor_of (sample_monitor ''10000000'') :: 32 word monitor)
    \<and> sint (mon_rotate_bytes (monitor_of (sample_monitor ''10000000'') :: 32 word monitor)) = 10000000"
proof -
  note sound = ParseManifest_sound [OF reference_manifest_implements _ sample_loads]
  have json: "yamlToJSON (sample_manifest (YInt 10000000))
      = (Inr (JArray (map JObject [sample_monitor ''10000000''])) :: (unit, unit) manifest_error + jval)"
    by (rule sample_doc_json [OF sample_lexemes(1)])
  have "map JObject objs = map JObject [sample_monitor ''10000000''] \<longleftrightarrow> objs = [sample_monitor ''10000000'']" for objs
    by (cases objs) auto
  then have "carries (sample_monitor ''10000000'') (monitor_of (sample_monitor ''10000000'') :: 32 word monitor)"
    using sound json by (auto simp: one_document_def)
  then show ?thesis
    using sound sample_numbers(1) by (simp add: carries_def declares_def sample_monitor_def)
qed

theorem ParseManifest_no_panic_witness:
  "(ParseManifest (one_document (sample_manifest (YInt64 0))) reference_manifest reference_schemas []
     :: (unit, unit) manifest_error + 64 word monitor list) \<noteq> Inl (ManifestPanic ''0'')"
  by (rule ParseManifest_no_panic [OF reference_manifest_implements])
    (simp add: one_document_def sample_entry_def flip: One_nat_def)

theorem ParseManifest_exponent_panics_witness:
  "\<exists>l. (ParseManifest (one_document (sample_manifest (YFloat (Finite False [1] 8)))) reference_manifest reference_schemas []
     :: (unit, unit) manifest_error + 64 word monitor list) = Inl (ManifestPanic l)"
proof (rule ParseManifest_exponent_panics [OF reference_manifest_implements, where k = "''rotate_bytes''" and neg = False
      and ds = "[1]" and dp = 8 and objs = "[]", OF _ _ sample_doc_json [OF sample_lexemes(2)]])
  show "list_all monitor_ok [sample_monitor ''1e+07'']"
    using sample_monitor_ok [OF sample_numbers(2)] by simp
  have "format_float (Finite False [1] 8) = ''1e+07''"
    using sample_lexemes(2) by simp
  then show "map_of (sample_monitor ''1e+07'') ''rotate_bytes'' = Some (JNumber (format_float (Finite False [1] 8)))"
    by (simp add: sample_monitor_def)
qed (simp_all add: one_document_def int_bounds_def)

end
