(* ===== verification/Fixture_Gen.thy ===== *)
theory Fixture_Gen
  imports Event_Parse Spool_Log Go_Int
begin

text \<open>
  \<open>internal/fixturegen/fixturegen.go\<close>: the generated corpora. The \<open>io.Writer\<close> is an argument, a function on
  an arbitrary state which returns the count and the error of one \<open>Write\<close>; \<open>writer_contract\<close> is the documented
  contract of the interface, with \<open>accepted\<close> the bytes a state has taken. The overflow loop ends because a
  writer that keeps the contract takes a whole line or fails, so it is a partial function in the option
  monad, and that it returns is a theorem.
\<close>

section \<open>The generated line\<close>

definition PendingBytes :: "64 word" where "PendingBytes = push_bit 20 16"
definition eventTS :: bytes where "eventTS = ''2026-08-24T09:12:03Z''"
definition padRunes :: nat where "padRunes = 1024"

text \<open>The format of \<open>writeEvent\<close>, with its seven verbs filled in.\<close>

definition generated_line :: "bytes \<Rightarrow> nat \<Rightarrow> bytes \<Rightarrow> bytes" where
  "generated_line source seq padding =
    ''{\"id\":\"'' @ source @ ''-'' @ pad_int 8 seq @ ''\",\"ts\":\"'' @ eventTS @ ''\",\"source\":\"'' @ source
    @ ''\",\"kind\":\"generated\",\"severity\":\"info\",\"summary\":\"generated event '' @ pad_int 8 seq
    @ ''\",\"data\":{\"padding\":\"'' @ padding @ ''\"}}'' @ [LF]"

type_synonym ('st, 'e) sink = "bytes \<Rightarrow> 'st \<Rightarrow> (int \<times> 'e option) \<times> 'st"

datatype 'e gen_error = BadSource slug_error | NegativeCount int | SinkError 'e

definition writeEvent :: "('st, 'e) sink \<Rightarrow> bytes \<Rightarrow> nat \<Rightarrow> bytes \<Rightarrow> 'st \<Rightarrow> (int \<times> 'e option) \<times> 'st" where
  "writeEvent w source seq padding st = w (generated_line source seq padding) st"

section \<open>The two corpora\<close>

partial_function (option) pending_loop ::
  "('st, 'e) sink \<Rightarrow> bytes \<Rightarrow> bytes \<Rightarrow> nat \<Rightarrow> 64 word \<Rightarrow> bool \<Rightarrow> 'st
    \<Rightarrow> ((nat \<times> 64 word \<times> 'e gen_error option) \<times> 'st) option" where
  "pending_loop w source pad events sent crossed st =
    (case writeEvent w source events pad st of
       ((n, Some e), st') \<Rightarrow> Some ((events, sent + word_of_int n, Some (SinkError e)), st')
     | ((n, None), st') \<Rightarrow>
         if crossed then Some ((events + 1, sent + word_of_int n, None), st')
         else pending_loop w source pad (events + 1) (sent + word_of_int n)
                (sint (sent + word_of_int n) > sint PendingBytes) st')"

definition PendingOverflowStream ::
  "('st, 'e) sink \<Rightarrow> bytes \<Rightarrow> 'st \<Rightarrow> ((nat \<times> 64 word \<times> 'e gen_error option) \<times> 'st) option" where
  "PendingOverflowStream w source st =
    (case validate_slug ''source'' source of
       Some e \<Rightarrow> Some ((0, 0, Some (BadSource e)), st)
     | None \<Rightarrow> pending_loop w source (replicate padRunes (CHR ''x'')) 0 0 False st)"

fun replay_round :: "('st, 'e) sink \<Rightarrow> bytes \<Rightarrow> nat list \<Rightarrow> 'st \<Rightarrow> 'e gen_error option \<times> 'st" where
  "replay_round w source [] st = (None, st)"
| "replay_round w source (i # is) st =
    (case writeEvent w source i ''duplicate replay'' st of
       ((_, Some e), st') \<Rightarrow> (Some (SinkError e), st')
     | ((_, None), st') \<Rightarrow> replay_round w source is st')"

fun replay_rounds :: "nat \<Rightarrow> ('st, 'e) sink \<Rightarrow> bytes \<Rightarrow> nat \<Rightarrow> 'st \<Rightarrow> 'e gen_error option \<times> 'st" where
  "replay_rounds 0 w source n st = (None, st)"
| "replay_rounds (Suc k) w source n st =
    (case replay_round w source [0..<n] st of
       (Some e, st') \<Rightarrow> (Some e, st')
     | (None, st') \<Rightarrow> replay_rounds k w source n st')"

definition DuplicateReplaySet :: "('st, 'e) sink \<Rightarrow> bytes \<Rightarrow> int \<Rightarrow> 'st \<Rightarrow> 'e gen_error option \<times> 'st" where
  "DuplicateReplaySet w source n st =
    (case validate_slug ''source'' source of
       Some e \<Rightarrow> (Some (BadSource e), st)
     | None \<Rightarrow>
         if n < 0 then (Some (NegativeCount n), st)
         else replay_rounds 2 w source (nat n) st)"

section \<open>The contract of a writer\<close>

definition writer_contract :: "('st, 'e) sink \<Rightarrow> ('st \<Rightarrow> bytes) \<Rightarrow> bool" where
  "writer_contract w accepted \<longleftrightarrow>
    (\<forall>b st n err st'. w b st = ((n, err), st') \<longrightarrow>
       0 \<le> n \<and> n \<le> int (length b) \<and> accepted st' = accepted st @ take (nat n) b
       \<and> (n < int (length b) \<longrightarrow> err \<noteq> None))"

text \<open>An in-memory buffer, and a device that takes what fits and then fails.\<close>

definition buffer_sink :: "(bytes, unit) sink" where
  "buffer_sink b st = ((int (length b), None), st @ b)"

definition full_sink :: "nat \<Rightarrow> (bytes, unit) sink" where
  "full_sink limit b st =
    (if length b \<le> limit - length st then ((int (length b), None), st @ b)
     else ((int (limit - length st), Some ()), st @ take (limit - length st) b))"

lemma sample_sinks: "writer_contract buffer_sink id" "writer_contract (full_sink limit) id"
  by (auto simp: writer_contract_def buffer_sink_def full_sink_def split: if_splits)

lemma writer_step:
  assumes "writer_contract w accepted"
  obtains (whole) st' where "w b st = ((int (length b), None), st')" "accepted st' = accepted st @ b"
  | (failed) k e st' where "k \<le> length b" "w b st = ((int k, Some e), st')" "accepted st' = accepted st @ take k b"
proof -
  obtain n err st' where r: "w b st = ((n, err), st')" by (cases "w b st") auto
  then have c: "0 \<le> n" "n \<le> int (length b)" "accepted st' = accepted st @ take (nat n) b" "n < int (length b) \<longrightarrow> err \<noteq> None"
    using assms unfolding writer_contract_def by blast+
  then obtain k where k: "n = int k" "k \<le> length b" using nonneg_int_cases by (metis nat_int_comparison(3))
  show thesis
  proof (cases err)
    case None
    then show thesis using whole [of st'] r c k by simp
  next
    case (Some e)
    then show thesis using failed [of k e st'] r c k by simp
  qed
qed

section \<open>What the generators send\<close>

definition corpus :: "bytes \<Rightarrow> bytes \<Rightarrow> nat \<Rightarrow> bytes" where
  "corpus source pad n = concat (map (\<lambda>i. generated_line source i pad) [0..<n])"

lemma corpus_0 [simp]: "corpus source pad 0 = []"
  by (simp add: corpus_def)

lemma corpus_Suc [simp]: "corpus source pad (Suc n) = corpus source pad n @ generated_line source n pad"
  by (simp add: corpus_def)

lemma generated_line_length:
  "length (generated_line source seq pad) = 2 * length source + 2 * length (pad_int 8 seq) + length pad + 139"
  by (simp add: generated_line_def eventTS_def)

lemma corpus_length: "n \<le> length (corpus source pad n)"
  by (induction n) (auto simp: generated_line_length)

lemma length_itoa: "n < 10 ^ k \<Longrightarrow> 0 < k \<Longrightarrow> length (itoa n) \<le> k"
proof (induction n arbitrary: k rule: itoa.induct)
  case (1 n)
  show ?case
  proof (cases "n < 10")
    case False
    then have "k \<noteq> 1" using "1.prems" by auto
    then obtain j where j: "k = Suc j" "0 < j" using "1.prems" by (cases k) auto
    then have "length (itoa (n div 10)) \<le> j" using "1.prems" False by (intro "1.IH") auto
    then show ?thesis using False j by (simp add: itoa.simps [of n])
  qed (use "1.prems" in \<open>simp add: itoa.simps\<close>)
qed

lemma length_pad_int: "n < 10 ^ k \<Longrightarrow> w \<le> k \<Longrightarrow> 0 < w \<Longrightarrow> length (pad_int w n) \<le> k"
  using length_itoa [of n k] by (simp add: pad_int_def)

section \<open>The overflow stream\<close>

lemma PendingBytes_value: "sint PendingBytes = 16777216"
  by (simp add: PendingBytes_def)

text \<open>What the stream reports, against the bytes the writer took.\<close>

definition stream_report :: "bytes \<Rightarrow> bytes \<Rightarrow> nat \<Rightarrow> 64 word \<Rightarrow> 'e gen_error option \<Rightarrow> bytes \<Rightarrow> bool" where
  "stream_report source pad events reported err out \<longleftrightarrow>
    sint reported = int (length out)
    \<and> (case err of
         None \<Rightarrow> out = corpus source pad events \<and> 2 \<le> events
           \<and> 16777216 < length (corpus source pad (events - 1)) \<and> length (corpus source pad (events - 2)) \<le> 16777216
       | Some _ \<Rightarrow> (\<exists>k \<le> length (generated_line source events pad).
           out = corpus source pad events @ take k (generated_line source events pad))
           \<and> length (corpus source pad (events - 1)) \<le> 16777216)"

lemma corpus_step_length:
  assumes "length source \<le> 128" "length pad \<le> 1024" "length (corpus source pad (n - 1)) \<le> 16777216"
  shows "length (generated_line source n pad) \<le> 1500" "length (corpus source pad n) \<le> 16778716"
proof -
  have line: "length (generated_line source k pad) \<le> 1500" if "k \<le> 16777217" for k
  proof -
    have "length (pad_int 8 k) \<le> 8" using that by (intro length_pad_int) simp_all
    then show ?thesis using assms(1,2) by (simp add: generated_line_length)
  qed
  have n: "n - 1 \<le> 16777216" using corpus_length [of "n - 1" source pad] assms(3) by simp
  then show "length (generated_line source n pad) \<le> 1500" by (intro line) simp
  show "length (corpus source pad n) \<le> 16778716"
    using line [of "n - 1"] n assms(3) by (cases n) simp_all
qed

lemma pending_loop_report:
  assumes "writer_contract w accepted" "length source \<le> 128" "length pad \<le> 1024"
    and "accepted st = base @ corpus source pad events" "crossed \<longleftrightarrow> 16777216 < length (corpus source pad events)"
    and "length (corpus source pad (events - 1)) \<le> 16777216"
  shows "\<exists>n reported err st' out.
    pending_loop w source pad events (word_of_nat (length (corpus source pad events))) crossed st = Some ((n, reported, err), st')
    \<and> accepted st' = base @ out \<and> stream_report source pad n reported err out"
  using assms(4-6)
proof (induction "16777217 - length (corpus source pad events)" arbitrary: events crossed st rule: less_induct)
  case less
  let ?line = "generated_line source events pad" and ?sent = "corpus source pad events"
  note bound = corpus_step_length [OF assms(2,3) less.prems(3)]
  note loop = pending_loop.simps [of w source pad events "word_of_nat (length ?sent)" crossed st]
  have reported: "sint (word_of_nat (length ?sent) + word_of_int (int k) :: 64 word) = int (length ?sent + k)"
    if "k \<le> length ?line" for k
    using sint_of_nat [of "length ?sent + k"] bound that by simp
  from assms(1) show ?case
  proof (cases rule: writer_step [where b = ?line and st = st])
    case (failed k e st')
    have "stream_report source pad events (word_of_nat (length ?sent) + word_of_int (int k)) (Some (SinkError e)) (?sent @ take k ?line)"
      using reported [OF failed(1)] failed(1) less.prems(3) by (auto simp: stream_report_def)
    then show ?thesis
      unfolding loop using failed less.prems(1) by (fastforce simp: writeEvent_def)
  next
    case (whole st')
    have sum: "word_of_nat (length ?sent) + word_of_int (int (length ?line))
        = (word_of_nat (length (corpus source pad (Suc events))) :: 64 word)"
      by simp
    have acc: "accepted st' = base @ corpus source pad (Suc events)"
      using whole(2) less.prems(1) by simp
    show ?thesis
    proof (cases crossed)
      case True
      then have "0 < events" using less.prems(2) by (cases events) simp_all
      then have "stream_report source pad (Suc events) (word_of_nat (length (corpus source pad (Suc events)))) None (corpus source pad (Suc events))"
        using True less.prems(2,3) reported [of "length ?line"] by (simp add: stream_report_def)
      then show ?thesis
        unfolding loop using True whole acc by (auto simp: writeEvent_def sum)
    next
      case False
      have crossed: "sint PendingBytes < sint (word_of_nat (length (corpus source pad (Suc events))) :: 64 word)
          \<longleftrightarrow> 16777216 < length (corpus source pad (Suc events))"
        using reported [of "length ?line"] by (simp add: PendingBytes_value) linarith
      have "0 < length ?line" by (simp add: generated_line_length)
      then have "length ?sent < length (corpus source pad (Suc events))" by simp
      then have "16777217 - length (corpus source pad (Suc events)) < 16777217 - length ?sent"
        using False less.prems(2) by (intro diff_less_mono2) simp_all
      moreover have "pending_loop w source pad events (word_of_nat (length ?sent)) crossed st
          = pending_loop w source pad (Suc events) (word_of_nat (length (corpus source pad (Suc events))))
              (16777216 < length (corpus source pad (Suc events))) st'"
        unfolding loop writeEvent_def whole(1) prod.case option.case sum crossed using False by (simp del: corpus_Suc)
      ultimately show ?thesis
        using less.hyps [OF _ acc refl] False less.prems(2) by simp
    qed
  qed
qed

section \<open>The generated line is a valid event\<close>

lemma plain_slug: "slug_pattern s \<Longrightarrow> plain_text s"
  using slug_pattern_all by (fastforce simp: plain_text_def list_all_iff plain_char_def slug_rest_def slug_first_def)

lemma plain_pad_int: "plain_text (pad_int w n)"
  using itoa_is_digit by (fastforce simp: pad_int_def plain_text_def list_all_iff plain_char_def is_digit_def)

lemma plain_constants [simp]: "plain_text eventTS" "plain_text ''generated event ''"
  by (simp_all add: eventTS_def plain_char_def)

definition generated_id :: "bytes \<Rightarrow> nat \<Rightarrow> bytes" where
  "generated_id source seq = source @ ''-'' @ pad_int 8 seq"

definition generated_object :: "bytes \<Rightarrow> nat \<Rightarrow> bytes \<Rightarrow> (bytes \<times> jval) list" where
  "generated_object source seq padding =
    [(''id'', JString (generated_id source seq)), (''ts'', JString eventTS), (''source'', JString source),
     (''kind'', JString ''generated''), (''severity'', JString ''info''),
     (''summary'', JString (''generated event '' @ pad_int 8 seq)), (''data'', JObject [(''padding'', JString padding)])]"

lemma generated_line_render:
  assumes "plain_text source" "plain_text padding"
  shows "generated_line source seq padding = render (JObject (generated_object source seq padding)) @ [LF]"
  using assms plain_pad_int [of 8 seq]
  by (simp add: generated_object_def generated_line_def generated_id_def qstring_plain plain_char_def)

lemma generated_object_wf:
  assumes "plain_text source" "plain_text padding"
  shows "jval_wf (JObject (generated_object source seq padding))" "jdepth (JObject (generated_object source seq padding)) \<le> MaxDepth"
proof -
  have "utf8_valid s" if "plain_text s" for s using plain_text_ascii [OF that] by blast
  then show "jval_wf (JObject (generated_object source seq padding))"
    using assms plain_pad_int [of 8 seq]
    by (simp add: generated_object_def generated_id_def plain_char_def jval_wf.simps(6))
qed (simp add: generated_object_def MaxDepth_def jdepth.simps)

lemma generated_line_decodes:
  assumes "plain_text source" "plain_text padding"
  shows "decodeStrict (trim_newline (generated_line source seq padding)) = Inr (JObject (generated_object source seq padding))"
  unfolding generated_line_render [OF assms] trim_newline_snoc decodeStrict_render [OF generated_object_wf(1) [OF assms]]
  using generated_object_wf(2) [OF assms] by simp

lemma generated_object_valid:
  assumes "slug_pattern source" "length source \<le> 128" "seq < 2 ^ 63"
  shows "watcher_event_ok (JObject (generated_object source seq padding))"
proof -
  have p: "plain_text source" "plain_text (pad_int 8 seq)" using plain_slug [OF assms(1)] plain_pad_int by auto
  have l: "length (pad_int 8 seq) \<le> 19" using assms(3) by (intro length_pad_int) simp_all
  have i: "line_text_ok 256 (generated_id source seq)"
    using p l assms(2) by (intro plain_line_text) (simp_all add: generated_id_def plain_char_def)
  have s: "line_text_ok 512 (''generated event '' @ pad_int 8 seq)" "line_text_ok 128 ''generated''"
    using p l by (intro plain_line_text; simp add: plain_char_def)+
  have ts: "ts_schema_ok eventTS"
    by (simp add: eventTS_def is_digit_def two_digits_def digit_val_def days_in_def)
  have c: "CHR '':'' \<notin> set (generated_id source seq)"
    using slug_pattern_all [OF assms(1), of "CHR '':''"] itoa_is_digit [of "CHR '':''" seq]
    by (auto simp: generated_id_def pad_int_def slug_rest_def slug_first_def is_digit_def)
  then have "\<not> prefix SyntheticIDPrefix (generated_id source seq)"
    by (auto simp: prefix_def SyntheticIDPrefix_def)
  then show ?thesis
    using i s ts assms(1,2)
    by (simp add: generated_object_def string_member_def member_string_def string_or_empty_def object_member_def
        event_keys_def SeverityInfo_def slug_pattern_rune_count projection_marker_def)
qed

lemma generated_line_accepted:
  fixes validate :: "'s \<Rightarrow> jval \<Rightarrow> 'v option"
  assumes "schemas_implemented validate S" "slug_pattern source" "length source \<le> 128" "seq < 2 ^ 63"
    and "plain_text padding" "length padding \<le> padRunes"
  shows "\<exists>e. ParseEventLine validate S sha256 (generated_line source seq padding) 0 WatcherInput = Inr (e, [])
    \<and> e_id e = generated_id source seq \<and> e_source e = source"
proof -
  let ?obj = "generated_object source seq padding" and ?line = "generated_line source seq padding"
  note p = plain_slug [OF assms(2)] assms(5)
  note v = generated_object_valid [OF assms(2-4), of padding]
  have l: "length (pad_int 8 seq) \<le> 19" using assms(4) by (intro length_pad_int) simp_all
  then have size: "int (length ?line) \<le> effective_max 0"
    using assms(3,6) by (simp add: generated_line_length padRunes_def)
  have one: "CHR 0x0A \<notin> set (trim_newline ?line)"
    unfolding generated_line_render [OF p] trim_newline_snoc
    by (rule one_line_no_LF [OF one_line_render [OF generated_object_wf(1) [OF p]]])
  have i: "string_or_empty ?obj ''id'' = generated_id source seq" "string_or_empty ?obj ''source'' = source"
    "string_or_empty ?obj ''summary'' = ''generated event '' @ pad_int 8 seq"
    by (simp_all add: generated_object_def string_or_empty_def member_string_def)
  have s: "profileSchema S WatcherInput (string_or_empty ?obj ''id'') = (Inr (watcherEvent S) :: 'v event_error + 's)"
    using v by (simp add: profileSchema_def WatcherInput_def DeliveryRecord_def SpoolRecord_def)
  have "validate (watcherEvent S) (JObject ?obj) = None"
    using assms(1) v by (simp only: schemas_implemented_def)
  then obtain t where "ParseEventLine validate S sha256 ?line 0 WatcherInput
      = Inr (event_of sha256 ?obj (string_or_empty ?obj ''id'') t, summary_warnings (string_or_empty ?obj ''summary''))"
    using ParseEventLine_accept [OF assms(1) size one generated_line_decodes [OF p] s, of sha256] by blast
  moreover have "rune_count (''generated event '' @ pad_int 8 seq) \<le> summaryTargetRunes"
  proof -
    have "plain_text (''generated event '' @ pad_int 8 seq)" using plain_pad_int by (simp add: plain_char_def)
    then have "rune_count (''generated event '' @ pad_int 8 seq) = length (''generated event '' @ pad_int 8 seq)"
      using plain_text_ascii by (simp only: rune_count_def length_map)
    then show ?thesis using l by (simp add: summaryTargetRunes_def)
  qed
  ultimately show ?thesis
    by (simp add: i event_of_def summary_warnings_def)
qed

lemma generated_id_inj: "generated_id source m = generated_id source n \<Longrightarrow> m = n"
proof -
  have "atoi_acc 0 (replicate k (CHR ''0'') @ t) = atoi_acc 0 t" for k t
    by (induction k) (simp_all add: is_digit_def digit_val_def)
  then have "atoi_acc 0 (pad_int 8 k) = Some k" for k
    by (simp add: pad_int_def atoi_itoa_0)
  moreover assume "generated_id source m = generated_id source n"
  ultimately show ?thesis by (metis generated_id_def option.inject same_append_eq)
qed

lemma complete_lines_corpus:
  assumes "plain_text source" "plain_text pad"
  shows "spool_of (corpus source pad n) = (map (\<lambda>i. render (JObject (generated_object source i pad))) [0..<n], [])"
proof -
  have "corpus source pad n = frame (map (\<lambda>i. render (JObject (generated_object source i pad))) [0..<n])"
    using generated_line_render [OF assms] by (simp add: corpus_def frame_def comp_def)
  then show ?thesis
    using spool_of_frame [of "map (\<lambda>i. render (JObject (generated_object source i pad))) [0..<n]" "[]"]
      one_line_no_LF [OF one_line_render [OF generated_object_wf(1) [OF assms]]] by simp
qed

section \<open>Properties of the generators\<close>

lemma source_slug: "validate_slug role source = None \<Longrightarrow> slug_pattern source \<and> length source \<le> 128"
  by (simp add: validate_slug_accepts MaxSlugLen_def)

lemma overflow_report:
  assumes "writer_contract w accepted" "validate_slug ''source'' source = None"
  shows "\<exists>n reported err st' out. PendingOverflowStream w source st = Some ((n, reported, err), st')
    \<and> accepted st' = accepted st @ out \<and> stream_report source (replicate padRunes (CHR ''x'')) n reported err out"
  using pending_loop_report [OF assms(1), of source "replicate padRunes (CHR ''x'')" st "accepted st" 0 False] source_slug [OF assms(2)]
  by (simp add: PendingOverflowStream_def assms(2) padRunes_def)

text \<open>
  C32. The overflow generator ends on every writer that keeps the contract of \<open>io.Writer\<close>, and reports exactly
  what reached it: \<open>total\<close> is the number of bytes taken. With no error these are the lines of \<open>events\<close>
  events, of which the last but one is the first to pass the cap of 16 MiB, so that exactly one event
  lies beyond the crossing. With an error they are \<open>events\<close> whole lines and a part of the next.
\<close>

theorem PendingOverflowStream_report:
  assumes "writer_contract w accepted" "validate_slug ''source'' source = None"
  shows "\<exists>n reported err st' out. PendingOverflowStream w source st = Some ((n, reported, err), st')
    \<and> accepted st' = accepted st @ out \<and> stream_report source (replicate padRunes (CHR ''x'')) n reported err out"
  by (rule overflow_report [OF assms])

theorem PendingOverflowStream_report_witness:
  "\<exists>n reported err st' out. PendingOverflowStream (full_sink 2000) ''ci'' [] = Some ((n, reported, err), st')
    \<and> st' = out \<and> stream_report ''ci'' (replicate padRunes (CHR ''x'')) n reported err out"
  using PendingOverflowStream_report [OF sample_sinks(2), of "''ci''" 2000 "[]"]
  by (simp add: validate_slug_accepts slug_first_def slug_rest_def MaxSlugLen_def)

text \<open>
  C33. A completed overflow stream is a corpus of valid events: read back as lines, each is accepted as
  watcher input without a warning, no two carry the same id, there are as many as reported and nothing
  is left over.
\<close>

theorem PendingOverflowStream_events:
  fixes validate :: "'s \<Rightarrow> jval \<Rightarrow> 'v option"
  assumes "schemas_implemented validate S" "writer_contract w accepted" "accepted st = []"
    and "validate_slug ''source'' source = None" "PendingOverflowStream w source st = Some ((n, reported, None), st')"
  shows "\<exists>es. list_all2 (\<lambda>line e. ParseEventLine validate S sha256 (line @ [LF]) 0 WatcherInput = Inr (e, []))
      (complete_lines (accepted st')) es
    \<and> length es = n \<and> distinct (map e_id es) \<and> fragment (accepted st') = []"
proof -
  let ?pad = "replicate padRunes (CHR ''x'')" and ?obj = "\<lambda>i. generated_object source i (replicate padRunes (CHR ''x''))"
  note slug = source_slug [OF assms(4)]
  have p: "plain_text source" "plain_text ?pad"
    using plain_slug slug by (blast, simp add: plain_text_def list_all_iff plain_char_def)
  have out: "accepted st' = corpus source ?pad n" "length (corpus source ?pad (n - 2)) \<le> 16777216"
    using overflow_report [OF assms(2,4), of st] assms(3,5) by (auto simp: stream_report_def)
  then have n: "n < 2 ^ 63" using corpus_length [of "n - 2" source ?pad] by simp
  define parsed where "parsed i e \<longleftrightarrow> ParseEventLine validate S sha256 (render (JObject (?obj i)) @ [LF]) 0 WatcherInput = Inr (e, [])
      \<and> e_id e = generated_id source i" for i e
  have "\<forall>i. \<exists>e. i < n \<longrightarrow> parsed i e"
  proof (intro allI)
    fix i
    show "\<exists>e. i < n \<longrightarrow> parsed i e"
      using generated_line_accepted [OF assms(1), of source i ?pad sha256] slug n p(2)
      unfolding generated_line_render [OF p] parsed_def by (cases "i < n") auto
  qed
  then obtain e where parsed: "\<forall>i. i < n \<longrightarrow> parsed i (e i)" by (rule choice [THEN exE])
  then have e: "ParseEventLine validate S sha256 (render (JObject (?obj i)) @ [LF]) 0 WatcherInput = Inr (e i, [])"
    "e_id (e i) = generated_id source i" if "i < n" for i
    using that by (simp_all add: parsed_def)
  have "inj_on (\<lambda>i. e_id (e i)) {0..<n}" by (rule inj_onI) (auto simp: e(2) dest: generated_id_inj)
  then show ?thesis
    using e by (intro exI [of _ "map e [0..<n]"])
      (simp add: out(1) complete_lines_def fragment_def complete_lines_corpus [OF p] list_all2_conv_all_nth distinct_map comp_def)
qed

lemma buffer_completes:
  "\<exists>n reported out. PendingOverflowStream buffer_sink ''ci'' [] = Some ((n, reported, None), out)"
proof -
  have no_error: "err = None" if "pending_loop buffer_sink source pad k t c st = Some ((n, reported, err), st')"
    for source pad k t c st n reported err st'
  proof (rule pending_loop.raw_induct [where P = "\<lambda>w source pad k t c st r. w = buffer_sink \<longrightarrow> snd (snd (fst r)) = None",
        OF _ that, simplified])
  qed (auto simp: writeEvent_def buffer_sink_def split: if_splits)
  have slug: "validate_slug ''source'' ''ci'' = None"
    by (simp add: validate_slug_accepts slug_first_def slug_rest_def MaxSlugLen_def)
  then obtain n reported err out where r: "PendingOverflowStream buffer_sink ''ci'' [] = Some ((n, reported, err), out)"
    using overflow_report [OF sample_sinks(1)] by blast
  then show ?thesis using no_error slug by (auto simp: PendingOverflowStream_def)
qed

theorem PendingOverflowStream_events_witness:
  "\<exists>n out es. list_all2 (\<lambda>line e. ParseEventLine reference_validate reference_schemas rev (line @ [LF]) 0 WatcherInput = Inr (e, []))
      (complete_lines out) es \<and> length es = n \<and> distinct (map e_id es)"
proof -
  obtain n reported out where r: "PendingOverflowStream buffer_sink ''ci'' [] = Some ((n, reported, None), out)"
    using buffer_completes by blast
  show ?thesis
    using PendingOverflowStream_events [OF reference_implements sample_sinks(1) _ _ r, of rev]
    by (auto simp: validate_slug_accepts slug_first_def slug_rest_def MaxSlugLen_def)
qed

lemma replay_round_report:
  assumes "writer_contract w accepted"
  shows "case replay_round w source seqs st of
      (None, st') \<Rightarrow> accepted st' = accepted st @ concat (map (\<lambda>i. generated_line source i ''duplicate replay'') seqs)
    | (Some e, st') \<Rightarrow> \<exists>out e' b s. e = SinkError e' \<and> snd (fst (w b s)) = Some e' \<and> accepted st' = accepted st @ out
        \<and> prefix out (concat (map (\<lambda>i. generated_line source i ''duplicate replay'') seqs))"
proof (induction seqs arbitrary: st)
  case (Cons i seqs)
  let ?line = "generated_line source i ''duplicate replay''"
  from assms show ?case
  proof (cases rule: writer_step [where b = ?line and st = st])
    case (whole st')
    then show ?thesis
      using Cons [of st'] by (fastforce simp: writeEvent_def split: prod.split option.split)
  next
    case (failed k e st')
    then have "prefix (take k ?line) (?line @ concat (map (\<lambda>i. generated_line source i ''duplicate replay'') seqs))"
      by (metis prefix_prefix take_is_prefix)
    moreover have "\<exists>b s. snd (fst (w b s)) = Some e" by (rule exI [of _ ?line], rule exI [of _ st]) (simp add: failed(2))
    ultimately show ?thesis
      using failed(2,3) by (simp add: writeEvent_def)
  qed
qed simp

text \<open>
  C34. The replay generator refuses a bad source and a negative count before it sends anything, and otherwise
  sends the same \<open>n\<close> events twice, byte for byte; only the writer's own error can stop it early, and then
  what was sent is a prefix of that.
\<close>

theorem DuplicateReplaySet_report:
  assumes "writer_contract w accepted"
  shows "let lines = corpus source ''duplicate replay'' (nat n) in
    case DuplicateReplaySet w source n st of
      (None, st') \<Rightarrow> validate_slug ''source'' source = None \<and> 0 \<le> n \<and> accepted st' = accepted st @ lines @ lines
    | (Some (SinkError e), st') \<Rightarrow> (\<exists>b s. snd (fst (w b s)) = Some e)
        \<and> (\<exists>out. accepted st' = accepted st @ out \<and> prefix out (lines @ lines))
    | (Some _, st') \<Rightarrow> st' = st \<and> (validate_slug ''source'' source \<noteq> None \<or> n < 0)"
proof (cases "validate_slug ''source'' source = None \<and> 0 \<le> n")
  case False
  then show ?thesis by (auto simp: DuplicateReplaySet_def Let_def split: option.split)
next
  case True
  let ?lines = "corpus source ''duplicate replay'' (nat n)" and ?round = "replay_round w source [0..<nat n]"
  obtain r1 st1 where one: "?round st = (r1, st1)" by (cases "?round st") auto
  obtain r2 st2 where two: "?round st1 = (r2, st2)" by (cases "?round st1") auto
  note report = replay_round_report [OF assms, where source = source and seqs = "[0..<nat n]", folded corpus_def]
  have run: "DuplicateReplaySet w source n st = (case r1 of Some e \<Rightarrow> (Some e, st1) | None \<Rightarrow> (r2, st2))"
    using True one two by (auto simp: DuplicateReplaySet_def eval_nat_numeral split: option.split)
  show ?thesis
  proof (cases r1)
    case None
    then show ?thesis
      using report [of st] report [of st1] one two True run
      by (cases r2) (fastforce simp: Let_def)+
  next
    case (Some e)
    then show ?thesis
      using report [of st] one run prefix_prefix by (fastforce simp: Let_def)
  qed
qed

theorem DuplicateReplaySet_report_witness:
  "case DuplicateReplaySet (full_sink 500) ''ci'' 2 [] of
      (None, st') \<Rightarrow> st' = corpus ''ci'' ''duplicate replay'' 2 @ corpus ''ci'' ''duplicate replay'' 2
    | (Some (SinkError e), st') \<Rightarrow> prefix st' (corpus ''ci'' ''duplicate replay'' 2 @ corpus ''ci'' ''duplicate replay'' 2)
    | (Some _, st') \<Rightarrow> st' = []"
  using DuplicateReplaySet_report [OF sample_sinks(2) [of 500], where source = "''ci''" and n = 2 and st = "[]"]
  by (auto simp: Let_def split: prod.split option.split gen_error.split)

end
