(* ===== verification/Spec2Isabelle.thy ===== *)
theory Spec2Isabelle
  imports Prelude Utf8 Slug Canonical_Roundtrip Timestamp Json_Number Event Event_Schema Event_Parse Mount_Info Os_World File_Path Durability
    Spool_Log Spool_Writer Spool_Progress Spool_System Go_Int Manifest Manifest_Load Fixture_Gen
begin

text \<open>
  A verification development for the Go code of this repository: the contract package that parses and
  serializes events and loads the manifest (\<open>internal/contract\<close>), the durability probe
  (\<open>internal/durability\<close>), the spool writer (\<open>internal/spool\<close>) and the fixture generator
  (\<open>internal/fixturegen\<close>).

  How the parts interact. A watcher prints one JSON event per line. \<open>ParseEventLine\<close> bounds the line,
  decodes it strictly, validates it against the schema of its stream, and hashes its canonical form. The
  canonical form is what the spool stores: \<open>Open\<close> takes the single-writer lock of a source, repairs a torn
  tail and syncs the directories, \<open>Append\<close> adds one record as one line and syncs it at the guarantee that
  \<open>Probe\<close> measured. Source names come from the manifest and are slugs, so that paths can be formed from
  them. \<open>fixturegen\<close> prints event lines for tests.

  \<^bold>\<open>Representation.\<close> A Go \<open>byte\<close> is a \<^typ>\<open>char\<close>, a string or slice of bytes a list of them. A fallible
  function returns a sum with the error on the left, or an optional error where Go returns only one; the
  constructors of the error types keep which check failed, not the text of the message. A failed type
  assertion, an index out of range and an explicit \<open>panic\<close> are errors of their own, and theorems say when
  they cannot occur. A Go map is an association list with distinct keys; where the code ranges over one, the
  list is any order of it. Integers are words where a conversion or an overflow is possible (device
  numbers, \<open>int64\<close> and durations of the manifest, the platform's \<open>int\<close> at a width \<open>'w\<close>, the byte count of
  the overflow stream), and natural numbers or integers for lengths, offsets and counters that start at
  zero and cannot reach the width of their type.

  \<^bold>\<open>Theories, in dependency order.\<close>
  \<^item> \<open>Prelude\<close>: bytes, hexadecimal digits, splitting and comparing lists, the collection of cancellation
    rules. \<open>Go_Int\<close>: words read back as integers.
  \<^item> \<open>Utf8\<close>: \<open>unicode/utf8\<close> and \<open>unicode/utf16\<close> as the code calls them; decoding inverts encoding.
  \<^item> \<open>Slug\<close>: \<open>slug.go\<close>, with the accepted language over the literal alphabets.
  \<^item> \<open>Json_Decoder\<close>: the token interface of \<open>encoding/json\<close>. \<open>Json\<close>: \<open>json.go\<close>, the bounded strict decoder
    with duplicate-key and lone-surrogate rejection; what it accepts is well formed.
  \<^item> \<open>Canonical\<close>: \<open>canonical.go\<close>; the key order is a strict linear order on valid strings (locale
    \<open>comparator\<close>, interpreted for \<open>compareUTF16\<close>), and the output is \<open>render\<close> of the sorted value.
    \<open>Canonical_Roundtrip\<close>: the decoder reads rendered text back, so canonical bytes identify a JSON value
    (locale \<open>canonical_codec\<close>, interpreted for the code's serializer and decoder).
  \<^item> \<open>Timestamp\<close>: \<open>parseTimestamp\<close> over \<open>time.Parse\<close> and \<open>Time.Format\<close>. \<open>Event\<close>: the rest of \<open>event.go\<close>.
    \<open>Json_Number\<close>: the integer a number lexeme denotes. \<open>Event_Schema\<close>: the four event schemas, translated from
    \<open>schemas/event.schema.json\<close> (locale \<open>record_schema\<close>, interpreted for each: no extraction step fails on a
    valid object). \<open>Event_Parse\<close>: exactly which lines each stream accepts, and what an accepted event is.
  \<^item> \<open>Manifest\<close>: \<open>manifest.go\<close> and the schema \<open>schemas/monitors.schema.json\<close>. \<open>Manifest_Load\<close>: which manifests
    load, what a loaded monitor satisfies, and when loading panics.
  \<^item> \<open>Mount_Info\<close>: \<open>mountinfo.go\<close> and the magic table. \<open>Os_World\<close>: system calls as programs of the state monad
    over a world with one events file, its lock, what of it is on stable storage, and a log of calls.
    \<open>File_Path\<close>: \<open>path/filepath\<close> and the path methods of \<open>Root\<close>, below the cleaned root. \<open>Durability\<close>: \<open>durability.go\<close>, \<open>sync_linux.go\<close>
    and \<open>sync_darwin.go\<close>.
  \<^item> \<open>Spool_Log\<close>: the abstract view of an events file as records and a fragment (locale \<open>framed_log\<close>).
    \<open>Spool_Writer\<close>: \<open>writer.go\<close> in full. \<open>Spool_Progress\<close>: where calls complete, opening and appending succeed.
    \<open>Spool_System\<close>: processes that open, append, close and die in any order, and hosts that lose power, as
    an inductive reachability relation with its invariant.
  \<^item> \<open>Fixture_Gen\<close>: \<open>fixturegen.go\<close>.
  \<^item> this theory: the properties that span components.

  \<^bold>\<open>Groups of lemmas.\<close> Each component theory proves, for its operations, the shape of every result
  (errors included), the preservation of its invariant, and its equivalence with a specification that is
  stated independently: \<open>slug_pattern\<close> and \<open>jval_wf\<close> as languages, \<open>normal_form\<close> and \<open>render\<close> for canonical
  text, \<open>last_index\<close> for the backward scan of the tail, \<open>spool_of\<close> for the events file, \<open>monitor_of\<close> for a
  manifest entry, \<open>stream_report\<close> for the generated corpus. The history of a spool is then an induction over
  reachable states whose steps are those lemmas.

  \<^bold>\<open>Termination.\<close> No definition uses fuel. The decoder's mutual recursion terminates by the unread input,
  the backward scan by its offset, everything else structurally. The loop of the overflow generator ends
  only if the writer keeps its contract, so it is a partial function whose result is an option, and that it
  returns is a theorem.

  \<^bold>\<open>Parameters and hypotheses.\<close> Code outside the repository is an argument. SHA-256 is any function. The
  JSON Schema validator is \<open>validate\<close>; \<open>schemas_implemented\<close> and \<open>manifest_implemented\<close> state that it accepts
  exactly what the embedded schemas say. The YAML decoder is \<open>decode\<close>, with no hypothesis. The operating
  system is the environment \<open>w_env\<close>, an arbitrary function: every call may complete, fail, or be the one
  in which the process dies; a durable sync covers what was written before it, and only a power loss in
  host-loss mode can take bytes that no such sync has covered. The \<open>io.Writer\<close> of the generator is any
  function that keeps \<open>writer_contract\<close>. Every theorem with hypotheses has a witness that discharges them on
  concrete functions and inputs.

  \<^bold>\<open>Not modelled.\<close> The texts of error messages and their wrapping chains. \<open>doc.go\<close> and the package comments
  have no operations, and \<open>schemas/embed.go\<close> only names embedded files. The compilation of the schemas is
  modelled up to which schema is compiled for which stream; the compiler itself is third-party. Of the file
  system only the events file of one source, its lock and its directories are kept; file contents are
  finite lists without a size limit. Watchers, adapters and the command-line interface that the documents
  describe have no code at this commit.
\<close>

section \<open>Properties across components\<close>

lemma admissible_canonical:
  assumes "decodeStrict t = Inr v" "appendCanonical [] v = Inr buf"
  shows "record_error buf = None"
  using canonical_admissible [OF decodeStrict_ok [OF assms(1)]] assms decodeStrict_ok [OF assms(1)]
  by (simp add: appendCanonical_ok)

text \<open>
  C1. End to end: an event that was parsed from a line, serialized canonically and accepted by the spool
  is still there after any interleaving of faults, as a line of its own which parses in the same stream
  to the same event, digest and warnings, with its data in canonical member order, for ordinary events and
  the service's own records alike, provided that line is within the stream's byte bound. The spool has
  no size check and canonical text can be longer than the line it was read from, so an
  accepted event can also be over the bound: it is then still in the file, and a reader gets the oversized error.
\<close>

theorem acknowledged_event_readable:
  fixes validate :: "'s \<Rightarrow> jval \<Rightarrow> 'v option"
  assumes "spool_reach lossy root source s w0 st" "lossy \<longrightarrow> sy_mode s = HostLoss"
    and "schemas_implemented validate S" "ParseEventLine validate S sha256 line m profile = Inr (e, ws)"
    and "decodeStrict (trim_newline line) = Inr v" "appendCanonical [] v = Inr buf"
    and "buf \<in> set (ss_accepted st)"
  shows "buf \<in> set (complete_lines (w_data (ss_world st)))
    \<and> ParseEventLine validate S sha256 (buf @ [LF]) m profile
      = (if int (length buf) < effective_max m
         then Inr (e\<lparr>e_data := map_option normal_members (e_data e)\<rparr>, ws)
         else Inl (Oversized (length buf + 1) (effective_max m)))"
proof -
  have "kept lossy (ss_accepted st) (ss_world st)"
    using reach_inv [OF assms(1)] assms(2) by (simp add: sys_inv_def)
  then have "subseq (ss_accepted st) (complete_lines (w_data (ss_world st)))"
    by (rule kept_lines)
  then have "buf \<in> set (complete_lines (w_data (ss_world st)))"
    by (rule list_emb_set [OF _ assms(7)]) simp
  then show ?thesis
    using canonical_line_parses [OF assms(3-6)] by simp
qed

theorem acknowledged_event_readable_witness:
  "\<exists>rec \<in> set (complete_lines (w_data (host_loss False ''x'' (ss_world (accepted_once
      ''{\"id\":\"ci-1\",\"kind\":\"run\",\"severity\":\"info\",\"source\":\"ci\",\"summary\":\"ok\",\"ts\":\"2024-02-29T23:59:59Z\"}''))))).
    \<exists>e ws. ParseEventLine reference_validate reference_schemas rev (rec @ [LF]) 0 WatcherInput = Inr (e, ws)"
proof -
  let ?buf = "''{\"id\":\"ci-1\",\"kind\":\"run\",\"severity\":\"info\",\"source\":\"ci\",\"summary\":\"ok\",\"ts\":\"2024-02-29T23:59:59Z\"}''"
  let ?st = "sys_step ''/srv'' ''ci'' sample_syncer (EvHostLoss False ''x'') (accepted_once ?buf)"
  obtain t where p: "ParseEventLine reference_validate reference_schemas rev sample_line 0 WatcherInput
      = Inr (event_of rev sample_object ''ci-1'' t, [])"
    using sample_run [of WatcherInput rev] by auto
  have d: "decodeStrict (trim_newline sample_line) = Inr (JObject sample_object)"
    using sample_line_plain sample_line_decodes by simp
  note a = sample_accepted [OF admissible_canonical [OF d sample_canonical]]
  have r: "spool_reach True ''/srv'' ''ci'' sample_syncer sample_spool ?st"
    by (rule reach_step [OF a(4)]) simp
  have acc: "?buf \<in> set (ss_accepted ?st)" using a(1) by simp
  have mode: "True \<longrightarrow> sy_mode sample_syncer = HostLoss" by (simp add: sample_sees)
  have "int (length ?buf) < effective_max 0" by simp
  with acknowledged_event_readable [OF r mode reference_implements p d sample_canonical acc]
  have "?buf \<in> set (complete_lines (w_data (ss_world ?st)))"
    "\<exists>e ws. ParseEventLine reference_validate reference_schemas rev (?buf @ [LF]) 0 WatcherInput = Inr (e, ws)"
    by (simp_all only: if_True) blast+
  then show ?thesis by (intro bexI [of _ ?buf]) simp_all
qed

text \<open>
  C27. From the manifest to the spool: the sources of an accepted manifest can all be served. Each has its own
  spool and its own lock, one component below the directories for them; its byte bound is the one the
  parse profile then applies, within the contract's ceiling; and with a syncer probed on this root, a
  free lock and completing calls its spool opens.
\<close>

theorem manifest_sources_served:
  fixes validate :: "'s \<Rightarrow> jval \<Rightarrow> 'v option" and decode :: "bytes \<Rightarrow> nat \<Rightarrow> 'y decoded" and ms :: "'w::len word monitor list"
  assumes "manifest_implemented validate S" "32 \<le> LENGTH('w)" "ParseManifest decode validate S data = Inr ms"
    and "ready s w" "w_lock w = None" "is_rooted root" "path_clean root = sy_dir s"
  shows "distinct (map (\<lambda>m. eventsPath root (mon_name m)) ms) \<and> distinct (map (\<lambda>m. writerLockPath root (mon_name m)) ms)
    \<and> list_all (\<lambda>m. eventsPath root (mon_name m) = under (eventsDir root) (mon_name m @ ''.jsonl'')
        \<and> writerLockPath root (mon_name m) = under (writerLockDir root) (mon_name m @ ''.lock'')
        \<and> effective_max (sint (mon_max_event_bytes m)) = sint (mon_max_event_bytes m)
        \<and> sint (mon_max_event_bytes m) \<le> CeilingMaxEventBytes
        \<and> (\<exists>wr. result (Open root (mon_name m) s) w = Inr wr)) ms"
proof -
  have names: "distinct (map mon_name ms)" and each: "\<And>m. m \<in> set ms \<Longrightarrow> validate_slug ''source'' (mon_name m) = None \<and> monitor_bounds m"
    using loaded_monitors [OF assms(1-3)] by (auto simp: list_all_iff validate_slug_accepts)
  then have valid: "\<And>m. m \<in> set ms \<Longrightarrow> validate_slug ''source'' (mon_name m) = None" by blast
  have "inj_on (\<lambda>n. eventsPath root n) (mon_name ` set ms)" "inj_on (\<lambda>n. writerLockPath root n) (mon_name ` set ms)"
    using source_paths [OF valid valid] by (auto intro!: inj_onI)
  then have "distinct (map (eventsPath root) (map mon_name ms))" "distinct (map (writerLockPath root) (map mon_name ms))"
    using names by (simp_all only: distinct_map list.set_map)
  moreover have "effective_max (sint (mon_max_event_bytes m)) = sint (mon_max_event_bytes m)
      \<and> sint (mon_max_event_bytes m) \<le> CeilingMaxEventBytes" if "m \<in> set ms" for m
    using each [OF that] by (simp add: monitor_bounds_def effective_max_def)
  moreover have "\<exists>wr. result (Open root (mon_name m) s) w = Inr wr" if "m \<in> set ms" for m
    using Open_succeeds [OF valid [OF that] assms(4-7)] by blast
  ultimately show ?thesis
    using source_paths [OF valid valid] by (simp add: list_all_iff comp_def)
qed

theorem manifest_sources_served_witness:
  "\<exists>wr. result (Open ''/srv'' (mon_name (monitor_of (sample_monitor ''10000000'') :: 32 word monitor)) sample_syncer) sample_spool = Inr wr"
  using manifest_sources_served [OF reference_manifest_implements _ sample_loads sample_ready sample_root] by simp

end
